theory Spec2Isabelle
  imports Complex_Main
begin

section \<open>The reasoned multi-step research orchestrator\<close>

text \<open>
  A shallow embedding of \<^verbatim>\<open>createReasonSearch\<close> (src/lib/ai/tools/reason-search.ts).
  The body of \<^verbatim>\<open>execute\<close> is one sequential chain of awaited calls, so it is modelled by
  explicit state passing. Everything outside the file is a parameter of the run (the record
  \<^verbatim>\<open>env\<close>): the four constrained generation calls and the three search adapters.
  A JavaScript number is modelled by the rational it denotes (\<^typ>\<open>rat\<close>), and arithmetic on
  such numbers rounds to the nearest double, as IEEE 754 binary64 does. The counters are
  \<^typ>\<open>int\<close>: they only ever hold small integers, on which double arithmetic is exact.
  \<^verbatim>\<open>Date.now()\<close> timestamps are left out of the annotations.
\<close>

subsection \<open>Template strings: numbers in decimal\<close>

definition digit :: "nat \<Rightarrow> char" where
  "digit n = ''0123456789'' ! n"

text \<open>\<^verbatim>\<open>`${index}`\<close> for a non-negative integer (an array index).\<close>

fun showNat :: "nat \<Rightarrow> string" where
  "showNat n = (if n < 10 then [digit n] else showNat (n div 10) @ [digit (n mod 10)])"

declare showNat.simps [simp del]

text \<open>\<^verbatim>\<open>`${searchIndex}`\<close> for an integer that may be negative.\<close>

definition showInt :: "int \<Rightarrow> string" where
  "showInt i = (if i < 0 then CHR ''-'' # showNat (nat (- i)) else showNat (nat i))"

subsection \<open>JavaScript numbers\<close>

text \<open>
  A finite double is a rational \<open>k * 2\<^sup>q\<close> with \<open>\<bar>k\<bar> < 2\<^sup>5\<^sup>3\<close> and \<open>q \<ge> -1074\<close>. The result of
  an arithmetic operator is the exact result rounded to the nearest double, ties to the
  even significand. \<open>binade x\<close> is the exponent \<open>e\<close> with \<open>2\<^sup>e \<le> \<bar>x\<bar> < 2\<^sup>e\<^sup>+\<^sup>1\<close>; the spacing of the
  doubles around \<open>x\<close> is \<open>2\<close> to the power \<open>max e (-1022) - 52\<close> (the \<open>max\<close> gives the
  subnormal numbers). The model covers finite results: a result of magnitude \<open>2\<^sup>1\<^sup>0\<^sup>2\<^sup>4\<close> or
  more is \<^verbatim>\<open>Infinity\<close> in JavaScript, which no rational denotes; the operands here are bounded
  by the schemas (at most 10 in magnitude), so no operation of the program gets there.
  \<^verbatim>\<open>-0\<close> and \<^verbatim>\<open>0\<close> are both the rational 0, and compare alike in JavaScript.
\<close>

definition pow2 :: "int \<Rightarrow> rat" where
  "pow2 e = (if 0 \<le> e then 2 ^ nat e else 1 / 2 ^ nat (- e))"

function binadeUp :: "rat \<Rightarrow> int" where
  "binadeUp x = (if 2 \<le> x then binadeUp (x / 2) + 1 else 0)"
  by pat_completeness auto
termination
proof (relation "measure (\<lambda>x. nat \<lfloor>x\<rfloor>)")
  show "wf (measure (\<lambda>x::rat. nat \<lfloor>x\<rfloor>))" by simp
next
  fix x :: rat
  assume a: "2 \<le> x"
  have "x / 2 \<le> x - 1" using a by simp
  then have "\<lfloor>x / 2\<rfloor> \<le> \<lfloor>x - 1\<rfloor>" by (rule floor_mono)
  then have "\<lfloor>x / 2\<rfloor> < \<lfloor>x\<rfloor>" by simp
  moreover have "0 < \<lfloor>x\<rfloor>" using a by simp
  ultimately show "(x / 2, x) \<in> measure (\<lambda>x. nat \<lfloor>x\<rfloor>)" by simp
qed

function binadeDown :: "rat \<Rightarrow> int" where
  "binadeDown x = (if 0 < x \<and> x < 1 then binadeDown (2 * x) - 1 else 0)"
  by pat_completeness auto
termination
proof (relation "measure (\<lambda>x. nat \<lfloor>1 / x\<rfloor>)")
  show "wf (measure (\<lambda>x::rat. nat \<lfloor>1 / x\<rfloor>))" by simp
next
  fix x :: rat
  assume a: "0 < x \<and> x < 1"
  define y where "y = 1 / x"
  from a have y1: "1 < y" by (simp add: y_def)
  have e: "1 / (2 * x) = y / 2" by (simp add: y_def)
  have "\<lfloor>y / 2\<rfloor> < \<lfloor>y\<rfloor>"
  proof (cases "2 \<le> y")
    case True
    then have "y / 2 \<le> y - 1" by simp
    then have "\<lfloor>y / 2\<rfloor> \<le> \<lfloor>y - 1\<rfloor>" by (rule floor_mono)
    then show ?thesis by simp
  next
    case False
    with y1 have "\<lfloor>y / 2\<rfloor> = 0" by (simp add: floor_eq_iff)
    moreover from y1 have "1 \<le> \<lfloor>y\<rfloor>" by (simp add: le_floor_iff)
    ultimately show ?thesis by simp
  qed
  moreover from y1 have "0 < \<lfloor>y\<rfloor>" by (simp add: less_floor_iff)
  ultimately show "(2 * x, x) \<in> measure (\<lambda>x. nat \<lfloor>1 / x\<rfloor>)" by (simp add: e y_def)
qed

declare binadeUp.simps [simp del] binadeDown.simps [simp del]

definition binade :: "rat \<Rightarrow> int" where
  "binade x = (if 1 \<le> \<bar>x\<bar> then binadeUp \<bar>x\<bar> else binadeDown \<bar>x\<bar>)"

text \<open>Round to the nearest integer, a tie to the even one.\<close>

definition roundHalfEven :: "rat \<Rightarrow> int" where
  "roundHalfEven y =
     (let f = \<lfloor>y\<rfloor>; d = y - of_int f
      in if d < 1 / 2 then f else if 1 / 2 < d then f + 1 else if even f then f else f + 1)"

definition roundDouble :: "rat \<Rightarrow> rat" where
  "roundDouble x =
     (if x = 0 then 0
      else let q = max (binade x) (- 1022) - 52
           in of_int (roundHalfEven (x / pow2 q)) * pow2 q)"

text \<open>The rationals that are doubles; every value of a JavaScript number is one.\<close>

definition isDouble :: "rat \<Rightarrow> bool" where
  "isDouble x \<longleftrightarrow> roundDouble x = x"

text \<open>The operators \<^verbatim>\<open>a - b\<close> and \<^verbatim>\<open>a / b\<close> (\<open>b\<close> not 0) on numbers.\<close>

definition jsSub :: "rat \<Rightarrow> rat \<Rightarrow> rat" where
  "jsSub a b = roundDouble (a - b)"

definition jsDiv :: "rat \<Rightarrow> rat \<Rightarrow> rat" where
  "jsDiv a b = roundDouble (a / b)"

subsection \<open>Data model\<close>

text \<open>
  The objects of the zod schemas, one record each. Where two objects have a field of the same
  name, the field carries a prefix here (\<open>analysis_type\<close> for the \<^verbatim>\<open>type\<close> of a required
  analysis, \<open>limitation_type\<close>, \<open>followup_priority\<close>, \<open>finding_text\<close> and so on). The source
  value \<^verbatim>\<open>'all'\<close> is the constructor \<open>AllSources\<close>.
\<close>

datatype source = Web | Academic | X | AllSources

datatype depth = Basic | Advanced

text \<open>The string a source value has in a template string.\<close>

fun sourceName :: "source \<Rightarrow> string" where
  "sourceName Web = ''web''"
| "sourceName Academic = ''academic''"
| "sourceName X = ''x''"
| "sourceName AllSources = ''all''"

record search_query =
  query :: string
  rationale :: string
  source :: source
  priority :: rat

record required_analysis =
  analysis_type :: string
  description :: string
  importance :: rat

record research_plan =
  search_queries :: "search_query list"
  required_analyses :: "required_analysis list"

record finding =
  insight :: string
  evidence :: "string list"
  confidence :: rat

record analysis_result =
  findings :: "finding list"
  implications :: "string list"
  analysis_limitations :: "string list"

record limitation =
  limitation_type :: string
  limitation_description :: string
  severity :: rat
  potential_solutions :: "string list"

record knowledge_gap =
  topic :: string
  reason :: string
  additional_queries :: "string list"

record followup =
  action :: string
  followup_rationale :: string
  followup_priority :: rat

record gap_analysis =
  limitations :: "limitation list"
  knowledge_gaps :: "knowledge_gap list"
  recommended_followup :: "followup list"

record key_finding =
  finding_text :: string
  finding_confidence :: rat
  supporting_evidence :: "string list"

record synthesis =
  key_findings :: "key_finding list"
  remaining_uncertainties :: "string list"

subsection \<open>Constrained generation\<close>

text \<open>
  \<^verbatim>\<open>generateObject\<close> (package \<^verbatim>\<open>ai\<close>) either returns an object that validates against the
  zod schema or throws. The model's answer is a parameter: \<open>None\<close> when the call fails,
  \<open>Some obj\<close> for the object it produced; the result \<open>None\<close> stands for the throw.
  The typed part of each schema (strings, arrays, enums) is the HOL type; the numeric and
  length bounds are the predicates below.
\<close>

definition generateObject :: "('a \<Rightarrow> bool) \<Rightarrow> 'a option \<Rightarrow> 'a option" where
  "generateObject schema response =
     (case response of
        None \<Rightarrow> None
      | Some obj \<Rightarrow> if schema obj then Some obj else None)"

text \<open>Lines 52-72: \<^verbatim>\<open>priority: z.number().min(1).max(5)\<close>, \<^verbatim>\<open>.max(12)\<close>,
  \<^verbatim>\<open>importance: z.number().min(1).max(5)\<close>, \<^verbatim>\<open>.max(8)\<close>.\<close>

definition querySchema :: "search_query \<Rightarrow> bool" where
  "querySchema q \<longleftrightarrow> 1 \<le> priority q \<and> priority q \<le> 5"

definition analysisSpecSchema :: "required_analysis \<Rightarrow> bool" where
  "analysisSpecSchema a \<longleftrightarrow> 1 \<le> importance a \<and> importance a \<le> 5"

definition researchPlanSchema :: "research_plan \<Rightarrow> bool" where
  "researchPlanSchema p \<longleftrightarrow>
     list_all querySchema (search_queries p) \<and> length (search_queries p) \<le> 12 \<and>
     list_all analysisSpecSchema (required_analyses p) \<and> length (required_analyses p) \<le> 8"

text \<open>Lines 235-245: \<^verbatim>\<open>confidence: z.number().min(0).max(1)\<close>.\<close>

definition findingSchema :: "finding \<Rightarrow> bool" where
  "findingSchema f \<longleftrightarrow> 0 \<le> confidence f \<and> confidence f \<le> 1"

definition analysisResultSchema :: "analysis_result \<Rightarrow> bool" where
  "analysisResultSchema r \<longleftrightarrow> list_all findingSchema (findings r)"

text \<open>Lines 288-311: \<^verbatim>\<open>severity: z.number().min(2).max(10)\<close>,
  \<^verbatim>\<open>priority: z.number().min(2).max(10)\<close>.\<close>

definition limitationSchema :: "limitation \<Rightarrow> bool" where
  "limitationSchema l \<longleftrightarrow> 2 \<le> severity l \<and> severity l \<le> 10"

definition followupSchema :: "followup \<Rightarrow> bool" where
  "followupSchema f \<longleftrightarrow> 2 \<le> followup_priority f \<and> followup_priority f \<le> 10"

definition gapAnalysisSchema :: "gap_analysis \<Rightarrow> bool" where
  "gapAnalysisSchema g \<longleftrightarrow>
     list_all limitationSchema (limitations g) \<and> list_all followupSchema (recommended_followup g)"

text \<open>Lines 549-558: \<^verbatim>\<open>confidence: z.number().min(0).max(1)\<close>.\<close>

definition keyFindingSchema :: "key_finding \<Rightarrow> bool" where
  "keyFindingSchema f \<longleftrightarrow> 0 \<le> finding_confidence f \<and> finding_confidence f \<le> 1"

definition synthesisSchema :: "synthesis \<Rightarrow> bool" where
  "synthesisSchema s \<longleftrightarrow> list_all keyFindingSchema (key_findings s)"

subsection \<open>Steps and their identifiers\<close>

record search_step =
  step_id :: string
  step_type :: source
  step_query :: search_query

record analysis_step =
  analysis_id :: string
  analysis :: required_analysis

record step_ids =
  planId :: string
  searchSteps :: "search_step list"
  analysisSteps :: "analysis_step list"

text \<open>The callback of \<^verbatim>\<open>plan.search_queries.flatMap((query, index) => ...)\<close>, lines 100-115.\<close>

definition searchStepsOf :: "nat \<times> search_query \<Rightarrow> search_step list" where
  "searchStepsOf iq =
     (let index = fst iq; q = snd iq in
      if source q = AllSources then
        [\<lparr>step_id = ''search-web-'' @ showNat index, step_type = Web, step_query = q\<rparr>,
         \<lparr>step_id = ''search-academic-'' @ showNat index, step_type = Academic, step_query = q\<rparr>,
         \<lparr>step_id = ''search-x-'' @ showNat index, step_type = X, step_query = q\<rparr>]
      else if source q = X then
        [\<lparr>step_id = ''search-x-'' @ showNat index, step_type = X, step_query = q\<rparr>]
      else
        (let searchType = (if source q = Academic then Academic else Web) in
         [\<lparr>step_id = ''search-'' @ sourceName searchType @ ''-'' @ showNat index,
           step_type = searchType, step_query = q\<rparr>]))"

text \<open>The callback of \<^verbatim>\<open>plan.required_analyses.map((analysis, index) => ...)\<close>, lines 118-122.\<close>

definition analysisStepOf :: "nat \<times> required_analysis \<Rightarrow> analysis_step" where
  "analysisStepOf ia = \<lparr>analysis_id = ''analysis-'' @ showNat (fst ia), analysis = snd ia\<rparr>"

definition generateStepIds :: "research_plan \<Rightarrow> step_ids" where
  "generateStepIds plan =
     \<lparr>planId = ''research-plan'',
      searchSteps = concat (map searchStepsOf (enumerate 0 (search_queries plan))),
      analysisSteps = map analysisStepOf (enumerate 0 (required_analyses plan))\<rparr>"

text \<open>Lines 133-134.\<close>

definition totalStepsOf :: "step_ids \<Rightarrow> int" where
  "totalStepsOf stepIds = int (length (searchSteps stepIds)) + int (length (analysisSteps stepIds))"

subsection \<open>Progress annotations\<close>

datatype update_type = Plan | Analysis | Progress

datatype status = Running | Completed

text \<open>
  The \<^verbatim>\<open>data\<close> object of a \<^verbatim>\<open>research_update\<close> annotation. A field the source leaves out of
  an object literal is \<open>None\<close> (\<open>False\<close> for \<^verbatim>\<open>overwrite\<close>).
\<close>

record annotation =
  ann_id :: string
  ann_type :: update_type
  ann_status :: status
  ann_title :: "string option"
  ann_message :: string
  ann_overwrite :: bool
  ann_plan :: "research_plan option"
  ann_analysisType :: "string option"
  ann_findings :: "finding list option"
  ann_gaps :: "knowledge_gap list option"
  ann_recommendations :: "followup list option"
  ann_uncertainties :: "string list option"
  ann_completedSteps :: "int option"
  ann_totalSteps :: "int option"
  ann_isComplete :: "bool option"

definition research_update ::
  "string \<Rightarrow> update_type \<Rightarrow> status \<Rightarrow> string option \<Rightarrow> string \<Rightarrow> bool \<Rightarrow> annotation" where
  "research_update i t st ti m ov =
     \<lparr>ann_id = i, ann_type = t, ann_status = st, ann_title = ti, ann_message = m,
      ann_overwrite = ov, ann_plan = None, ann_analysisType = None, ann_findings = None,
      ann_gaps = None, ann_recommendations = None, ann_uncertainties = None,
      ann_completedSteps = None, ann_totalSteps = None, ann_isComplete = None\<rparr>"

text \<open>Lines 35-46.\<close>

definition planRunning :: annotation where
  "planRunning =
     research_update ''research-plan-initial'' Plan Running (Some ''Research Plan'')
       ''Creating research plan...'' True"

text \<open>Lines 137-150.\<close>

definition planCompleted :: "step_ids \<Rightarrow> research_plan \<Rightarrow> int \<Rightarrow> annotation" where
  "planCompleted stepIds researchPlan totalSteps =
     (research_update (planId stepIds) Plan Completed (Some ''Research Plan'')
        ''Research plan created'' True)
     \<lparr>ann_plan := Some researchPlan, ann_totalSteps := Some totalSteps\<rparr>"

text \<open>Lines 219-230.\<close>

definition analysisRunning :: "analysis_step \<Rightarrow> annotation" where
  "analysisRunning step =
     (research_update (analysis_id step) Analysis Running
        (Some (''Analyzing '' @ analysis_type (analysis step)))
        (''Analyzing '' @ analysis_type (analysis step) @ ''...'') False)
     \<lparr>ann_analysisType := Some (analysis_type (analysis step))\<rparr>"

text \<open>Lines 252-265.\<close>

definition analysisCompleted :: "analysis_step \<Rightarrow> analysis_result \<Rightarrow> annotation" where
  "analysisCompleted step analysisResult =
     (research_update (analysis_id step) Analysis Completed
        (Some (''Analysis of '' @ analysis_type (analysis step) @ '' complete''))
        ''Analysis complete'' True)
     \<lparr>ann_analysisType := Some (analysis_type (analysis step)),
      ann_findings := Some (findings analysisResult)\<rparr>"

text \<open>Lines 271-282.\<close>

definition gapRunning :: annotation where
  "gapRunning =
     (research_update ''gap-analysis'' Analysis Running (Some ''Research Gaps and Limitations'')
        ''Analyzing research gaps and limitations...'' False)
     \<lparr>ann_analysisType := Some ''gaps''\<rparr>"

text \<open>The callback of \<^verbatim>\<open>gapAnalysis.limitations.map((l) => ...)\<close>, lines 349-353.\<close>

definition limitationFinding :: "limitation \<Rightarrow> finding" where
  "limitationFinding l =
     \<lparr>insight = limitation_description l, evidence = potential_solutions l,
      confidence = jsDiv (jsSub 6 (severity l)) 5\<rparr>"

text \<open>Lines 341-362.\<close>

definition gapCompleted :: "gap_analysis \<Rightarrow> int \<Rightarrow> int \<Rightarrow> depth \<Rightarrow> annotation" where
  "gapCompleted gapAnalysis completedSteps totalSteps depth =
     (research_update ''gap-analysis'' Analysis Completed (Some ''Research Gaps and Limitations'')
        (''Identified '' @ showNat (length (limitations gapAnalysis)) @ '' limitations and '' @
           showNat (length (knowledge_gaps gapAnalysis)) @ '' knowledge gaps'') True)
     \<lparr>ann_analysisType := Some ''gaps'',
      ann_findings := Some (map limitationFinding (limitations gapAnalysis)),
      ann_gaps := Some (knowledge_gaps gapAnalysis),
      ann_recommendations := Some (recommended_followup gapAnalysis),
      ann_completedSteps := Some (completedSteps + 1),
      ann_totalSteps := Some (totalSteps + (if depth = Advanced then 2 else 1))\<rparr>"

text \<open>Lines 532-543.\<close>

definition synthesisRunning :: annotation where
  "synthesisRunning =
     (research_update ''final-synthesis'' Analysis Running (Some ''Final Research Synthesis'')
        ''Synthesizing all research findings...'' False)
     \<lparr>ann_analysisType := Some ''synthesis''\<rparr>"

text \<open>The callback of \<^verbatim>\<open>finalSynthesis.key_findings.map((f) => ...)\<close>, lines 580-584.\<close>

definition keyFindingFinding :: "key_finding \<Rightarrow> finding" where
  "keyFindingFinding f =
     \<lparr>insight = finding_text f, evidence = supporting_evidence f,
      confidence = finding_confidence f\<rparr>"

text \<open>Lines 572-592.\<close>

definition synthesisCompleted :: "synthesis \<Rightarrow> int \<Rightarrow> depth \<Rightarrow> annotation" where
  "synthesisCompleted finalSynthesis totalSteps depth =
     (research_update ''final-synthesis'' Analysis Completed (Some ''Final Research Synthesis'')
        (''Synthesized '' @ showNat (length (key_findings finalSynthesis)) @ '' key findings'')
        True)
     \<lparr>ann_analysisType := Some ''synthesis'',
      ann_findings := Some (map keyFindingFinding (key_findings finalSynthesis)),
      ann_uncertainties := Some (remaining_uncertainties finalSynthesis),
      ann_completedSteps := Some (totalSteps + (if depth = Advanced then 2 else 1) - 1),
      ann_totalSteps := Some (totalSteps + (if depth = Advanced then 2 else 1))\<rparr>"

text \<open>Lines 596-609.\<close>

definition finalProgress :: "int \<Rightarrow> depth \<Rightarrow> annotation" where
  "finalProgress totalSteps depth =
     (research_update ''research-progress'' Progress Completed None ''Research complete'' True)
     \<lparr>ann_completedSteps := Some (totalSteps + (if depth = Advanced then 2 else 1)),
      ann_totalSteps := Some (totalSteps + (if depth = Advanced then 2 else 1)),
      ann_isComplete := Some True\<rparr>"

subsection \<open>Search adapters and search results\<close>

text \<open>
  The three adapters (\<^verbatim>\<open>./steps/web-search\<close>, \<^verbatim>\<open>./steps/academic-search\<close>,
  \<^verbatim>\<open>./steps/x-search\<close>) are imported by the file and are parameters of the run. Each takes
  the arguments the orchestrator passes and answers with \<^verbatim>\<open>{ results, error? }\<close>. Their own
  annotations are written inside the adapters and are not part of this model.
\<close>

record web_args =
  web_query :: string
  web_provider :: string
  web_maxResults :: rat
  web_searchDepth :: depth
  web_stepId :: string

record academic_args =
  academic_query :: string
  academic_maxResults :: rat
  academic_stepId :: string

record x_args =
  x_query :: string
  x_type :: string
  x_maxResults :: rat
  x_stepId :: string

datatype adapter_call = WebCall web_args | AcademicCall academic_args | XCall x_args

fun callStepId :: "adapter_call \<Rightarrow> string" where
  "callStepId (WebCall a) = web_stepId a"
| "callStepId (AcademicCall a) = academic_stepId a"
| "callStepId (XCall a) = x_stepId a"

text \<open>
  Modelled from the spec: the item type of the web adapter, which is declared in
  \<^verbatim>\<open>./steps/web-search\<close> and not in this file. The spec gives every item at least
  \<^verbatim>\<open>title\<close>, \<^verbatim>\<open>url\<close> and \<^verbatim>\<open>content\<close>; the orchestrator reads none of them. The fields of the
  academic and x items are those the gap loop reads (lines 459-466 and 492-503).
\<close>

record web_item =
  web_title :: string
  web_url :: string
  web_content :: string

record academic_item =
  academic_title :: "string option"
  academic_url :: "string option"
  academic_summary :: "string option"

record x_item =
  x_url :: string
  x_title :: "string option"
  x_author :: "string option"
  x_text :: "string option"

record 'i response =
  results :: "'i list"
  error :: "string option"

record source_item =
  item_source :: source
  item_title :: string
  item_url :: string
  item_content :: string
  tweetId :: "string option"

datatype result_item =
    WebItem web_item
  | AcademicItem academic_item
  | XItem x_item
  | SourceItem source_item

record search_result =
  result_type :: source
  result_query :: search_query
  result_items :: "result_item list"

record env =
  llmPlan :: "string \<Rightarrow> research_plan option"
  llmAnalysis :: "analysis_step \<Rightarrow> search_result list \<Rightarrow> analysis_result option"
  llmGapAnalysis :: "search_result list \<Rightarrow> analysis_step list \<Rightarrow> gap_analysis option"
  llmSynthesis ::
    "search_result list \<Rightarrow> gap_analysis \<Rightarrow> search_query list \<Rightarrow> synthesis option"
  webSearchStep :: "web_args \<Rightarrow> web_item response"
  academicSearchStep :: "academic_args \<Rightarrow> academic_item response"
  xSearchStep :: "x_args \<Rightarrow> x_item response"

text \<open>JavaScript truthiness of an optional string: \<^verbatim>\<open>undefined\<close> and \<^verbatim>\<open>''\<close> are falsy.\<close>

definition truthy :: "string option \<Rightarrow> bool" where
  "truthy e = (case e of None \<Rightarrow> False | Some str \<Rightarrow> str \<noteq> [])"

text \<open>\<^verbatim>\<open>a || b\<close> on an optional string \<open>a\<close>.\<close>

definition orElse :: "string option \<Rightarrow> string \<Rightarrow> string" where
  "orElse a b = (case a of None \<Rightarrow> b | Some str \<Rightarrow> if str = [] then b else str)"

subsection \<open>Run state\<close>

text \<open>
  The mutable variables of \<^verbatim>\<open>execute\<close>, the annotations written to \<^verbatim>\<open>dataStream\<close> so far,
  and the adapter calls made so far, both in order.
\<close>

record run_state =
  searchResults :: "search_result list"
  completedSteps :: int
  searchIndex :: int
  analysisIndex :: int
  dataStream :: "annotation list"
  adapterCalls :: "adapter_call list"

definition initialState :: run_state where
  "initialState =
     \<lparr>searchResults = [], completedSteps = 0, searchIndex = 0, analysisIndex = 0,
      dataStream = [], adapterCalls = []\<rparr>"

definition writeMessageAnnotation :: "annotation \<Rightarrow> run_state \<Rightarrow> run_state" where
  "writeMessageAnnotation a s = s\<lparr>dataStream := dataStream s @ [a]\<rparr>"

text \<open>An exception leaves the state reached so far behind: what was written stays written.\<close>

datatype 'a outcome = Threw run_state | Returned 'a run_state

fun finalState :: "'a outcome \<Rightarrow> run_state" where
  "finalState (Threw s) = s"
| "finalState (Returned r s) = s"

subsection \<open>The initial search pass (lines 153-213)\<close>

text \<open>The argument objects of the three adapter calls, lines 158-167, 178-183, 194-200.\<close>

definition webArgs :: "depth \<Rightarrow> search_step \<Rightarrow> web_args" where
  "webArgs depth step =
     \<lparr>web_query = query (step_query step), web_provider = ''tavily'',
      web_maxResults = min (jsSub 6 (priority (step_query step))) 10,
      web_searchDepth = depth, web_stepId = step_id step\<rparr>"

definition academicArgs :: "search_step \<Rightarrow> academic_args" where
  "academicArgs step =
     \<lparr>academic_query = query (step_query step),
      academic_maxResults = min (jsSub 6 (priority (step_query step))) 5,
      academic_stepId = step_id step\<rparr>"

definition xArgs :: "search_step \<Rightarrow> x_args" where
  "xArgs step =
     \<lparr>x_query = query (step_query step), x_type = ''keyword'',
      x_maxResults = priority (step_query step), x_stepId = step_id step\<rparr>"

text \<open>The three branches of the loop body. A result is pushed and \<^verbatim>\<open>completedSteps\<close> is
  incremented only under \<^verbatim>\<open>if (!searchResult.error)\<close>.\<close>

definition webStep :: "env \<Rightarrow> depth \<Rightarrow> search_step \<Rightarrow> run_state \<Rightarrow> run_state" where
  "webStep env depth step s =
     (let searchResult = webSearchStep env (webArgs depth step);
          s1 = s\<lparr>adapterCalls := adapterCalls s @ [WebCall (webArgs depth step)]\<rparr>
      in if \<not> truthy (error searchResult) then
           s1\<lparr>searchResults := searchResults s1 @
                  [\<lparr>result_type = Web, result_query = step_query step,
                    result_items = map WebItem (results searchResult)\<rparr>],
              completedSteps := completedSteps s1 + 1\<rparr>
         else s1)"

definition academicStep :: "env \<Rightarrow> search_step \<Rightarrow> run_state \<Rightarrow> run_state" where
  "academicStep env step s =
     (let searchResult = academicSearchStep env (academicArgs step);
          s1 = s\<lparr>adapterCalls := adapterCalls s @ [AcademicCall (academicArgs step)]\<rparr>
      in if \<not> truthy (error searchResult) then
           s1\<lparr>searchResults := searchResults s1 @
                  [\<lparr>result_type = Academic, result_query = step_query step,
                    result_items = map AcademicItem (results searchResult)\<rparr>],
              completedSteps := completedSteps s1 + 1\<rparr>
         else s1)"

definition xStep :: "env \<Rightarrow> search_step \<Rightarrow> run_state \<Rightarrow> run_state" where
  "xStep env step s =
     (let searchResult = xSearchStep env (xArgs step);
          s1 = s\<lparr>adapterCalls := adapterCalls s @ [XCall (xArgs step)]\<rparr>
      in if \<not> truthy (error searchResult) then
           s1\<lparr>searchResults := searchResults s1 @
                  [\<lparr>result_type = X, result_query = step_query step,
                    result_items = map XItem (results searchResult)\<rparr>],
              completedSteps := completedSteps s1 + 1\<rparr>
         else s1)"

text \<open>One iteration of \<^verbatim>\<open>for (const step of stepIds.searchSteps)\<close>.\<close>

definition searchStep :: "env \<Rightarrow> depth \<Rightarrow> search_step \<Rightarrow> run_state \<Rightarrow> run_state" where
  "searchStep env depth step s =
     (let s1 = (if step_type step = Web then webStep env depth step s
                else if step_type step = Academic then academicStep env step s
                else if step_type step = X then xStep env step s
                else s)
      in s1\<lparr>searchIndex := searchIndex s1 + 1\<rparr>)"

fun searchLoop :: "env \<Rightarrow> depth \<Rightarrow> search_step list \<Rightarrow> run_state \<Rightarrow> run_state" where
  "searchLoop env depth [] s = s"
| "searchLoop env depth (step # steps) s = searchLoop env depth steps (searchStep env depth step s)"

subsection \<open>The analysis pass (lines 216-268)\<close>

text \<open>One \<^verbatim>\<open>generateObject\<close> call per analysis step; a throw ends the run.\<close>

fun analysisLoop :: "env \<Rightarrow> analysis_step list \<Rightarrow> run_state \<Rightarrow> unit outcome" where
  "analysisLoop env [] s = Returned () s"
| "analysisLoop env (step # steps) s =
     (let s1 = writeMessageAnnotation (analysisRunning step) s in
      case generateObject analysisResultSchema (llmAnalysis env step (searchResults s1)) of
        None \<Rightarrow> Threw s1
      | Some analysisResult \<Rightarrow>
          (let s2 = writeMessageAnnotation (analysisCompleted step analysisResult) s1
           in analysisLoop env steps (s2\<lparr>analysisIndex := analysisIndex s2 + 1\<rparr>)))"

subsection \<open>The deepening pass (lines 374-593)\<close>

text \<open>The callback of \<^verbatim>\<open>gap.additional_queries.map((query, idx) => ...)\<close>, lines 377-399.\<close>

definition gapQuery :: "knowledge_gap \<Rightarrow> nat \<times> string \<Rightarrow> search_query" where
  "gapQuery gap iq =
     (let idx = fst iq;
          sourceTypes = [Web, Academic, X, AllSources];
          src = (if idx = 0 then AllSources else sourceTypes ! (idx mod (length sourceTypes - 1)))
      in \<lparr>query = snd iq, rationale = reason gap, source = src, priority = 3\<rparr>)"

text \<open>\<^verbatim>\<open>gapAnalysis.knowledge_gaps.flatMap((gap) => ...)\<close>, line 376.\<close>

definition additionalQueriesOf :: "knowledge_gap list \<Rightarrow> search_query list" where
  "additionalQueriesOf gaps =
     concat (map (\<lambda>gap. map (gapQuery gap) (enumerate 0 (additional_queries gap))) gaps)"

text \<open>The query object pushed with a gap result, lines 427-432.\<close>

definition gapResultQuery :: "search_query \<Rightarrow> source \<Rightarrow> search_query" where
  "gapResultQuery q src =
     \<lparr>query = query q, rationale = rationale q, source = src, priority = priority q\<rparr>"

text \<open>Lines 408-435. No test of \<^verbatim>\<open>webResults.error\<close> guards the push.\<close>

definition gapWebSearch :: "env \<Rightarrow> depth \<Rightarrow> search_query \<Rightarrow> string \<Rightarrow> run_state \<Rightarrow> run_state" where
  "gapWebSearch env depth q gapSearchId s =
     (let args = \<lparr>web_query = query q, web_provider = ''tavily'', web_maxResults = 5,
                  web_searchDepth = depth,
                  web_stepId = (if source q = AllSources
                                then ''gap-search-web-'' @ showInt (searchIndex s - 3)
                                else gapSearchId)\<rparr>;
          webResults = webSearchStep env args
      in s\<lparr>adapterCalls := adapterCalls s @ [WebCall args],
           searchResults := searchResults s @
             [\<lparr>result_type = Web, result_query = gapResultQuery q Web,
               result_items = map WebItem (results webResults)\<rparr>]\<rparr>)"

text \<open>Lines 459-466.\<close>

definition academicSourceItem :: "academic_item \<Rightarrow> source_item" where
  "academicSourceItem r =
     \<lparr>item_source = Academic, item_title = orElse (academic_title r) [],
      item_url = orElse (academic_url r) [], item_content = orElse (academic_summary r) [],
      tweetId = None\<rparr>"

text \<open>Lines 437-468. \<^verbatim>\<open>searchIndex++\<close> is evaluated only for an \<^verbatim>\<open>all\<close> query.\<close>

definition gapAcademicSearch :: "env \<Rightarrow> search_query \<Rightarrow> string \<Rightarrow> run_state \<Rightarrow> run_state" where
  "gapAcademicSearch env q gapSearchId s =
     (let academicSearchId = (if source q = AllSources
                              then ''gap-search-academic-'' @ showInt (searchIndex s)
                              else gapSearchId);
          s1 = (if source q = AllSources then s\<lparr>searchIndex := searchIndex s + 1\<rparr> else s);
          args = \<lparr>academic_query = query q, academic_maxResults = 3,
                  academic_stepId = academicSearchId\<rparr>;
          academicSearchResult = academicSearchStep env args
      in s1\<lparr>adapterCalls := adapterCalls s1 @ [AcademicCall args],
            searchResults := searchResults s1 @
              [\<lparr>result_type = Academic, result_query = gapResultQuery q Academic,
                result_items = map (SourceItem \<circ> academicSourceItem)
                                 (results academicSearchResult)\<rparr>]\<rparr>)"

text \<open>
  \<^verbatim>\<open>extractTweetId\<close>, lines 476-481: the first match of
  \<^verbatim>\<open>/(?:twitter\.com|x\.com)\/\w+\/status\/(\d+)/\<close> anywhere in the URL. \<^verbatim>\<open>\w+\<close> and
  \<^verbatim>\<open>\d+\<close> are greedy, and the character after \<^verbatim>\<open>\w+\<close> must be \<^verbatim>\<open>/\<close>, which is no word
  character, so only the longest run of word characters can match.
\<close>

definition isWordChar :: "char \<Rightarrow> bool" where
  "isWordChar c \<longleftrightarrow>
     c \<in> set ''abcdefghijklmnopqrstuvwxyzABCDEFGHIJKLMNOPQRSTUVWXYZ0123456789_''"

definition isDigit :: "char \<Rightarrow> bool" where
  "isDigit c \<longleftrightarrow> c \<in> set ''0123456789''"

fun stripPrefix :: "string \<Rightarrow> string \<Rightarrow> string option" where
  "stripPrefix [] str = Some str"
| "stripPrefix (p # ps) [] = None"
| "stripPrefix (p # ps) (c # cs) = (if p = c then stripPrefix ps cs else None)"

definition matchTweetAt :: "string \<Rightarrow> string option" where
  "matchTweetAt str =
     (case (case stripPrefix ''twitter.com'' str of
              Some r \<Rightarrow> Some r
            | None \<Rightarrow> stripPrefix ''x.com'' str) of
        None \<Rightarrow> None
      | Some r1 \<Rightarrow>
          (case stripPrefix ''/'' r1 of
             None \<Rightarrow> None
           | Some r2 \<Rightarrow>
               if takeWhile isWordChar r2 = [] then None
               else (case stripPrefix ''/status/'' (dropWhile isWordChar r2) of
                       None \<Rightarrow> None
                     | Some r3 \<Rightarrow>
                         if takeWhile isDigit r3 = [] then None
                         else Some (takeWhile isDigit r3))))"

fun extractTweetId :: "string \<Rightarrow> string option" where
  "extractTweetId [] = None"
| "extractTweetId (c # cs) =
     (case matchTweetAt (c # cs) of
        Some d \<Rightarrow> Some d
      | None \<Rightarrow> extractTweetId cs)"

text \<open>Lines 492-515: the \<^verbatim>\<open>map\<close> to a tweet or \<^verbatim>\<open>null\<close>, then the \<^verbatim>\<open>filter\<close>.\<close>

definition processTweet :: "x_item \<Rightarrow> source_item option" where
  "processTweet r =
     (case extractTweetId (x_url r) of
        None \<Rightarrow> None
      | Some tid \<Rightarrow>
          Some \<lparr>item_source = X, item_title = orElse (x_title r) (orElse (x_author r) ''Tweet''),
                item_url = x_url r, item_content = orElse (x_text r) [],
                tweetId = Some tid\<rparr>)"

definition processedTweets :: "x_item list \<Rightarrow> source_item list" where
  "processedTweets rs = List.map_filter processTweet rs"

text \<open>Lines 470-528.\<close>

definition gapXSearch :: "env \<Rightarrow> search_query \<Rightarrow> string \<Rightarrow> run_state \<Rightarrow> run_state" where
  "gapXSearch env q gapSearchId s =
     (let xSearchId = (if source q = AllSources
                       then ''gap-search-x-'' @ showInt (searchIndex s)
                       else gapSearchId);
          s1 = (if source q = AllSources then s\<lparr>searchIndex := searchIndex s + 1\<rparr> else s);
          args = \<lparr>x_query = query q, x_type = ''keyword'', x_maxResults = 5,
                  x_stepId = xSearchId\<rparr>;
          xSearchResult = xSearchStep env args
      in s1\<lparr>adapterCalls := adapterCalls s1 @ [XCall args],
            searchResults := searchResults s1 @
              [\<lparr>result_type = X, result_query = gapResultQuery q X,
                result_items = map SourceItem (processedTweets (results xSearchResult))\<rparr>]\<rparr>)"

text \<open>One iteration of \<^verbatim>\<open>for (const query of additionalQueries)\<close>, lines 403-529.\<close>

definition gapSearch :: "env \<Rightarrow> depth \<Rightarrow> search_query \<Rightarrow> run_state \<Rightarrow> run_state" where
  "gapSearch env depth q s =
     (let gapSearchId = ''gap-search-'' @ showInt (searchIndex s);
          s1 = s\<lparr>searchIndex := searchIndex s + 1\<rparr>;
          s2 = (if source q = Web \<or> source q = AllSources
                then gapWebSearch env depth q gapSearchId s1 else s1);
          s3 = (if source q = Academic \<or> source q = AllSources
                then gapAcademicSearch env q gapSearchId s2 else s2)
      in if source q = X \<or> source q = AllSources
         then gapXSearch env q gapSearchId s3 else s3)"

fun gapSearchLoop :: "env \<Rightarrow> depth \<Rightarrow> search_query list \<Rightarrow> run_state \<Rightarrow> run_state" where
  "gapSearchLoop env depth [] s = s"
| "gapSearchLoop env depth (q # qs) s = gapSearchLoop env depth qs (gapSearch env depth q s)"

text \<open>The body of \<^verbatim>\<open>if (depth === 'advanced' && gapAnalysis.knowledge_gaps.length > 0)\<close>.\<close>

definition deepeningPass ::
  "env \<Rightarrow> depth \<Rightarrow> int \<Rightarrow> gap_analysis \<Rightarrow> run_state \<Rightarrow> synthesis outcome" where
  "deepeningPass env depth totalSteps gapAnalysis s =
     (let additionalQueries = additionalQueriesOf (knowledge_gaps gapAnalysis);
          s1 = gapSearchLoop env depth additionalQueries s;
          s2 = writeMessageAnnotation synthesisRunning s1
      in case generateObject synthesisSchema
                (llmSynthesis env (searchResults s2) gapAnalysis additionalQueries) of
           None \<Rightarrow> Threw s2
         | Some finalSynthesis \<Rightarrow>
             Returned finalSynthesis
               (writeMessageAnnotation (synthesisCompleted finalSynthesis totalSteps depth) s2))"

subsection \<open>The whole run\<close>

record research_output =
  output_plan :: research_plan
  output_results :: "search_result list"
  output_synthesis :: "synthesis option"

text \<open>Lines 270-616, from the gap analysis to the return.\<close>

definition gapPhase ::
  "env \<Rightarrow> depth \<Rightarrow> research_plan \<Rightarrow> step_ids \<Rightarrow> int \<Rightarrow> run_state \<Rightarrow> research_output outcome"
  where
  "gapPhase env depth researchPlan stepIds totalSteps s =
     (let s1 = writeMessageAnnotation gapRunning s in
      case generateObject gapAnalysisSchema
             (llmGapAnalysis env (searchResults s1) (analysisSteps stepIds)) of
        None \<Rightarrow> Threw s1
      | Some gapAnalysis \<Rightarrow>
          (let s2 = writeMessageAnnotation
                      (gapCompleted gapAnalysis (completedSteps s1) totalSteps depth) s1
           in if depth = Advanced \<and> length (knowledge_gaps gapAnalysis) > 0 then
                (case deepeningPass env depth totalSteps gapAnalysis s2 of
                   Threw s3 \<Rightarrow> Threw s3
                 | Returned finalSynthesis s3 \<Rightarrow>
                     (let s4 = writeMessageAnnotation (finalProgress totalSteps depth) s3
                      in Returned \<lparr>output_plan = researchPlan,
                                   output_results = searchResults s4,
                                   output_synthesis = Some finalSynthesis\<rparr> s4))
              else
                (let s4 = writeMessageAnnotation (finalProgress totalSteps depth) s2
                 in Returned \<lparr>output_plan = researchPlan,
                              output_results = searchResults s4,
                              output_synthesis = None\<rparr> s4)))"

text \<open>Lines 131-268, from the step identifiers to the end of the analyses, then the rest.\<close>

definition researchPhase ::
  "env \<Rightarrow> depth \<Rightarrow> research_plan \<Rightarrow> run_state \<Rightarrow> research_output outcome" where
  "researchPhase env depth researchPlan s =
     (let stepIds = generateStepIds researchPlan;
          totalSteps = totalStepsOf stepIds;
          s1 = writeMessageAnnotation (planCompleted stepIds researchPlan totalSteps) s;
          s2 = searchLoop env depth (searchSteps stepIds) s1
      in case analysisLoop env (analysisSteps stepIds) s2 of
           Threw s3 \<Rightarrow> Threw s3
         | Returned u s3 \<Rightarrow> gapPhase env depth researchPlan stepIds totalSteps s3)"

text \<open>\<^verbatim>\<open>execute({ topic, depth })\<close>, lines 28-616.\<close>

definition execute :: "env \<Rightarrow> string \<Rightarrow> depth \<Rightarrow> research_output outcome" where
  "execute env topicText depth =
     (let s = writeMessageAnnotation planRunning initialState in
      case generateObject researchPlanSchema (llmPlan env topicText) of
        None \<Rightarrow> Threw s
      | Some researchPlan \<Rightarrow> researchPhase env depth researchPlan s)"

section \<open>Vocabulary of the properties\<close>

text \<open>
  The definitions of this section are not code of the program. They name what the
  properties below talk about: the answer an adapter gives for a step, the identifiers the
  gap loop hands out, the annotations a run can write.
\<close>

subsection \<open>The adapter's answer for an initial search step\<close>

text \<open>The \<^verbatim>\<open>error\<close> field of the answer to the call the step makes. The adapter reports an
  error when this field is truthy, which is what \<^verbatim>\<open>!searchResult.error\<close> reads.\<close>

definition adapterError :: "env \<Rightarrow> depth \<Rightarrow> search_step \<Rightarrow> string option" where
  "adapterError env depth step =
     (if step_type step = Web then error (webSearchStep env (webArgs depth step))
      else if step_type step = Academic then error (academicSearchStep env (academicArgs step))
      else if step_type step = X then error (xSearchStep env (xArgs step))
      else None)"

definition stepSucceeds :: "env \<Rightarrow> depth \<Rightarrow> search_step \<Rightarrow> bool" where
  "stepSucceeds env depth step \<longleftrightarrow>
     step_type step \<noteq> AllSources \<and> \<not> truthy (adapterError env depth step)"

text \<open>The adapter calls one step makes: one call, or none for a type no branch handles.\<close>

definition stepCalls :: "depth \<Rightarrow> search_step \<Rightarrow> adapter_call list" where
  "stepCalls depth step =
     (if step_type step = Web then [WebCall (webArgs depth step)]
      else if step_type step = Academic then [AcademicCall (academicArgs step)]
      else if step_type step = X then [XCall (xArgs step)]
      else [])"

text \<open>The SearchResult entry a successful step pushes.\<close>

definition stepResult :: "env \<Rightarrow> depth \<Rightarrow> search_step \<Rightarrow> search_result" where
  "stepResult env depth step =
     \<lparr>result_type = step_type step, result_query = step_query step,
      result_items =
        (if step_type step = Web
         then map WebItem (results (webSearchStep env (webArgs depth step)))
         else if step_type step = Academic
         then map AcademicItem (results (academicSearchStep env (academicArgs step)))
         else map XItem (results (xSearchStep env (xArgs step))))\<rparr>"

subsection \<open>Identifiers and result types of the gap loop\<close>

text \<open>The step identifiers one gap query passes to the adapters when the counter
  \<^verbatim>\<open>searchIndex\<close> is \<open>n\<close> at its start, and by how much the query advances the counter.\<close>

definition gapIds :: "int \<Rightarrow> search_query \<Rightarrow> string list" where
  "gapIds n q =
     (if source q = AllSources
      then [''gap-search-web-'' @ showInt (n - 2), ''gap-search-academic-'' @ showInt (n + 1),
            ''gap-search-x-'' @ showInt (n + 2)]
      else [''gap-search-'' @ showInt n])"

definition gapAdvance :: "search_query \<Rightarrow> int" where
  "gapAdvance q = (if source q = AllSources then 3 else 1)"

fun gapLoopIds :: "int \<Rightarrow> search_query list \<Rightarrow> string list" where
  "gapLoopIds n [] = []"
| "gapLoopIds n (q # qs) = gapIds n q @ gapLoopIds (n + gapAdvance q) qs"

text \<open>The types of the SearchResult entries one gap query pushes.\<close>

definition gapTypes :: "search_query \<Rightarrow> source list" where
  "gapTypes q = (if source q = AllSources then [Web, Academic, X] else [source q])"

text \<open>The four shapes of a gap identifier, and the identifiers the loop can still hand out
  once the counter has reached \<open>n\<close>.\<close>

datatype gap_kind = PlainId | WebId | AcademicId | XId

fun gapIdOf :: "gap_kind \<Rightarrow> int \<Rightarrow> string" where
  "gapIdOf PlainId i = ''gap-search-'' @ showInt i"
| "gapIdOf WebId i = ''gap-search-web-'' @ showInt i"
| "gapIdOf AcademicId i = ''gap-search-academic-'' @ showInt i"
| "gapIdOf XId i = ''gap-search-x-'' @ showInt i"

definition gapIdFrom :: "int \<Rightarrow> string \<Rightarrow> bool" where
  "gapIdFrom n str \<longleftrightarrow>
     (\<exists>i. n \<le> i \<and> str = gapIdOf PlainId i) \<or>
     (\<exists>i. n - 2 \<le> i \<and> str = gapIdOf WebId i) \<or>
     (\<exists>i. n + 1 \<le> i \<and> str = gapIdOf AcademicId i) \<or>
     (\<exists>i. n + 2 \<le> i \<and> str = gapIdOf XId i)"

subsection \<open>The annotations a run can write after the plan\<close>

definition analysisAnnotation :: "analysis_step list \<Rightarrow> annotation \<Rightarrow> bool" where
  "analysisAnnotation steps a \<longleftrightarrow>
     (\<exists>st\<in>set steps. a = analysisRunning st \<or> (\<exists>r. a = analysisCompleted st r))"

text \<open>From the gap analysis on, with \<open>c\<close> the value of \<^verbatim>\<open>completedSteps\<close> after the search
  loop and \<open>T\<close> the value of \<^verbatim>\<open>totalSteps\<close>.\<close>

definition tailAnnotation :: "int \<Rightarrow> int \<Rightarrow> depth \<Rightarrow> annotation \<Rightarrow> bool" where
  "tailAnnotation c T depth a \<longleftrightarrow>
     a = gapRunning \<or> (\<exists>g. a = gapCompleted g c T depth) \<or> a = synthesisRunning \<or>
     (\<exists>f. a = synthesisCompleted f T depth) \<or> a = finalProgress T depth"

definition laterAnnotation :: "env \<Rightarrow> depth \<Rightarrow> research_plan \<Rightarrow> annotation \<Rightarrow> bool" where
  "laterAnnotation env depth plan a \<longleftrightarrow>
     analysisAnnotation (analysisSteps (generateStepIds plan)) a \<or>
     tailAnnotation
       (int (length (filter (stepSucceeds env depth) (searchSteps (generateStepIds plan)))))
       (totalStepsOf (generateStepIds plan)) depth a"

subsection \<open>Sources and queries of the searches\<close>

text \<open>The source and the query text of an adapter call, and of a SearchResult entry.\<close>

fun callSource :: "adapter_call \<Rightarrow> source" where
  "callSource (WebCall a) = Web"
| "callSource (AcademicCall a) = Academic"
| "callSource (XCall a) = X"

fun callQuery :: "adapter_call \<Rightarrow> string" where
  "callQuery (WebCall a) = web_query a"
| "callQuery (AcademicCall a) = academic_query a"
| "callQuery (XCall a) = x_query a"

definition callTarget :: "adapter_call \<Rightarrow> source \<times> string" where
  "callTarget c = (callSource c, callQuery c)"

definition resultTarget :: "search_result \<Rightarrow> source \<times> string" where
  "resultTarget r = (result_type r, query (result_query r))"

text \<open>The sources one gap query is searched on, with its text.\<close>

definition queryTargets :: "search_query \<Rightarrow> (source \<times> string) list" where
  "queryTargets q = map (\<lambda>t. (t, query q)) (gapTypes q)"

text \<open>The distribution of the additional queries as the specification words it: within each
  knowledge gap, the query at position 0 fans out to a web, an academic and an x search, and
  the query at position \<open>idx > 0\<close> goes to the source at position \<open>idx mod 3\<close> of web,
  academic, x. This one follows the specification; \<open>additionalQueriesOf\<close> and \<open>gapSearch\<close>
  follow the source.\<close>

definition rotationOf :: "nat \<times> string \<Rightarrow> (source \<times> string) list" where
  "rotationOf iq =
     (if fst iq = 0 then [(Web, snd iq), (Academic, snd iq), (X, snd iq)]
      else [([Web, Academic, X] ! (fst iq mod 3), snd iq)])"

definition rotationFanOut :: "knowledge_gap list \<Rightarrow> (source \<times> string) list" where
  "rotationFanOut gaps =
     concat (map (\<lambda>gap. concat (map rotationOf (enumerate 0 (additional_queries gap)))) gaps)"

subsection \<open>The identifiers of a gap batch\<close>

text \<open>The shape of the identifiers of a batch of gap queries when the counter
  \<^verbatim>\<open>searchIndex\<close> is \<open>i\<close> at its start: a single-source query takes \<^verbatim>\<open>gap-search-<i>\<close> and the
  rest starts at \<open>i + 1\<close>; an \<^verbatim>\<open>all\<close> query takes a web identifier with some index, then
  \<^verbatim>\<open>gap-search-academic-<i+1>\<close> and \<^verbatim>\<open>gap-search-x-<i+2>\<close>, and the rest starts at \<open>i + 3\<close>.\<close>

fun gapBatchIds :: "int \<Rightarrow> search_query list \<Rightarrow> string list \<Rightarrow> bool" where
  "gapBatchIds i [] ids \<longleftrightarrow> ids = []"
| "gapBatchIds i (q # qs) ids \<longleftrightarrow>
     (if source q = AllSources
      then \<exists>j rest. ids = (''gap-search-web-'' @ showInt j) #
                          (''gap-search-academic-'' @ showInt (i + 1)) #
                          (''gap-search-x-'' @ showInt (i + 2)) # rest \<and>
                    gapBatchIds (i + 3) qs rest
      else \<exists>rest. ids = (''gap-search-'' @ showInt i) # rest \<and> gapBatchIds (i + 1) qs rest)"

subsection \<open>The state after the search loop\<close>

text \<open>The state of a run when the search loop has ended.\<close>

definition afterSearch :: "env \<Rightarrow> depth \<Rightarrow> research_plan \<Rightarrow> run_state \<Rightarrow> bool" where
  "afterSearch env depth plan s \<longleftrightarrow>
     adapterCalls s = concat (map (stepCalls depth) (searchSteps (generateStepIds plan))) \<and>
     searchResults s =
       map (stepResult env depth)
         (filter (stepSucceeds env depth) (searchSteps (generateStepIds plan))) \<and>
     searchIndex s = int (length (searchSteps (generateStepIds plan)))"

subsection \<open>A concrete run\<close>

text \<open>
  A plan of two queries and one analysis, a gap analysis with one limitation of severity 10
  and two knowledge gaps of three additional queries each, and adapters of which the web
  adapter answers every call with \<^verbatim>\<open>{ results: [], error: 'timeout' }\<close>.
\<close>

definition webQuery :: search_query where
  "webQuery = \<lparr>query = ''solar'', rationale = ''r1'', source = Web, priority = 1\<rparr>"

definition academicQuery :: search_query where
  "academicQuery = \<lparr>query = ''wind'', rationale = ''r2'', source = Academic, priority = 3\<rparr>"

definition exampleAnalysis :: required_analysis where
  "exampleAnalysis = \<lparr>analysis_type = ''trend'', description = ''d'', importance = 3\<rparr>"

definition examplePlan :: research_plan where
  "examplePlan =
     \<lparr>search_queries = [webQuery, academicQuery], required_analyses = [exampleAnalysis]\<rparr>"

definition exampleLimitation :: limitation where
  "exampleLimitation =
     \<lparr>limitation_type = ''coverage'', limitation_description = ''few sources'',
      severity = 10, potential_solutions = []\<rparr>"

definition exampleGaps :: gap_analysis where
  "exampleGaps =
     \<lparr>limitations = [exampleLimitation],
      knowledge_gaps =
        [\<lparr>topic = ''storage'', reason = ''missing'', additional_queries = [''a1'', ''a2'', ''a3'']\<rparr>,
         \<lparr>topic = ''grid'', reason = ''thin'', additional_queries = [''b1'', ''b2'', ''b3'']\<rparr>],
      recommended_followup = []\<rparr>"

definition timeoutEnv :: env where
  "timeoutEnv =
     \<lparr>llmPlan = (\<lambda>t. Some examplePlan),
      llmAnalysis =
        (\<lambda>a rs. Some \<lparr>findings = [], implications = [], analysis_limitations = []\<rparr>),
      llmGapAnalysis = (\<lambda>rs as. Some exampleGaps),
      llmSynthesis = (\<lambda>rs g qs. Some \<lparr>key_findings = [], remaining_uncertainties = []\<rparr>),
      webSearchStep = (\<lambda>a. \<lparr>results = [], error = Some ''timeout''\<rparr>),
      academicSearchStep = (\<lambda>a. \<lparr>results = [], error = None\<rparr>),
      xSearchStep = (\<lambda>a. \<lparr>results = [], error = None\<rparr>)\<rparr>"

text \<open>The two search steps of the plan.\<close>

definition webStep0 :: search_step where
  "webStep0 = \<lparr>step_id = ''search-web-0'', step_type = Web, step_query = webQuery\<rparr>"

definition academicStep1 :: search_step where
  "academicStep1 =
     \<lparr>step_id = ''search-academic-1'', step_type = Academic, step_query = academicQuery\<rparr>"

section \<open>Lemmas\<close>

subsection \<open>Rounding to a double\<close>

lemma pow2_pos: "0 < pow2 e"
  by (simp add: pow2_def)

lemma pow2_Suc: "pow2 (e + 1) = 2 * pow2 e"
proof (cases "0 \<le> e")
  case True
  then have "nat (e + 1) = Suc (nat e)" by simp
  with True show ?thesis by (simp add: pow2_def)
next
  case False
  then have "nat (- e) = Suc (nat (- (e + 1)))" by simp
  with False show ?thesis by (simp add: pow2_def)
qed

lemma pow2_pred: "pow2 (e - 1) = pow2 e / 2"
  using pow2_Suc [of "e - 1"] by simp

lemma pow2_add_nat: "pow2 (e + int n) = 2 ^ n * pow2 e"
proof (induction n)
  case 0
  then show ?case by simp
next
  case (Suc n)
  have "e + int (Suc n) = (e + int n) + 1" by simp
  then have "pow2 (e + int (Suc n)) = 2 * pow2 (e + int n)" by (simp only: pow2_Suc)
  with Suc show ?case by simp
qed

lemma pow2_mono_nat: "pow2 e \<le> pow2 (e + int n)"
proof -
  have "(1::rat) \<le> 2 ^ n" by simp
  then have "1 * pow2 e \<le> 2 ^ n * pow2 e"
    using pow2_pos [of e] by (simp only: mult_le_cancel_right_pos)
  then show ?thesis by (simp add: pow2_add_nat)
qed

lemma pow2_mono: "a \<le> b \<Longrightarrow> pow2 a \<le> pow2 b"
  using pow2_mono_nat [of a "nat (b - a)"] by simp

lemma pow2_less_imp: "pow2 a < pow2 b \<Longrightarrow> a < b"
  using pow2_mono [of b a] by (cases "a < b") simp_all

lemma binadeUp_bounds: "1 \<le> x \<Longrightarrow> pow2 (binadeUp x) \<le> x \<and> x < pow2 (binadeUp x + 1)"
proof (induction x rule: binadeUp.induct)
  case (1 x)
  show ?case
  proof (cases "2 \<le> x")
    case True
    then have "1 \<le> x / 2" by simp
    with "1.IH" True have ih: "pow2 (binadeUp (x / 2)) \<le> x / 2"
      "x / 2 < pow2 (binadeUp (x / 2) + 1)" by simp_all
    have e: "binadeUp x = binadeUp (x / 2) + 1" using True by (subst binadeUp.simps) simp
    have p1: "pow2 (binadeUp x) = 2 * pow2 (binadeUp (x / 2))" by (simp only: e pow2_Suc)
    have p2: "pow2 (binadeUp x + 1) = 2 * pow2 (binadeUp (x / 2) + 1)" by (simp only: e pow2_Suc)
    from ih show ?thesis unfolding p1 p2 by linarith
  next
    case False
    then have "binadeUp x = 0" by (subst binadeUp.simps) simp
    with False "1.prems" show ?thesis by (simp add: pow2_def)
  qed
qed

lemma binadeDown_bounds:
  "0 < x \<Longrightarrow> x < 1 \<Longrightarrow> pow2 (binadeDown x) \<le> x \<and> x < pow2 (binadeDown x + 1)"
proof (induction x rule: binadeDown.induct)
  case (1 x)
  have e: "binadeDown x = binadeDown (2 * x) - 1"
    using "1.prems" by (subst binadeDown.simps) simp
  show ?case
  proof (cases "2 * x < 1")
    case True
    with "1.IH" "1.prems" have "pow2 (binadeDown (2 * x)) \<le> 2 * x"
      "2 * x < pow2 (binadeDown (2 * x) + 1)" by simp_all
    then have ih: "pow2 (binadeDown (2 * x)) \<le> 2 * x"
      "2 * x < 2 * pow2 (binadeDown (2 * x))" by (simp_all only: pow2_Suc)
    have p1: "pow2 (binadeDown x) = pow2 (binadeDown (2 * x)) / 2" by (simp only: e pow2_pred)
    have "binadeDown x + 1 = binadeDown (2 * x)" by (simp add: e)
    then have p2: "pow2 (binadeDown x + 1) = pow2 (binadeDown (2 * x))" by (simp only:)
    from ih show ?thesis unfolding p1 p2 by linarith
  next
    case False
    then have "binadeDown (2 * x) = 0" by (subst binadeDown.simps) simp
    then have "binadeDown x = - 1" by (simp add: e)
    with False "1.prems" show ?thesis by (simp add: pow2_def)
  qed
qed

lemma binade_bounds: "x \<noteq> 0 \<Longrightarrow> pow2 (binade x) \<le> \<bar>x\<bar> \<and> \<bar>x\<bar> < pow2 (binade x + 1)"
proof (cases "1 \<le> \<bar>x\<bar>")
  case True
  then show ?thesis using binadeUp_bounds [of "\<bar>x\<bar>"] by (simp add: binade_def)
next
  case False
  assume "x \<noteq> 0"
  then have "0 < \<bar>x\<bar>" by simp
  with False show ?thesis using binadeDown_bounds [of "\<bar>x\<bar>"] by (simp add: binade_def)
qed

lemma binade_ge: "pow2 e \<le> \<bar>x\<bar> \<Longrightarrow> e \<le> binade x"
proof -
  assume a: "pow2 e \<le> \<bar>x\<bar>"
  with pow2_pos [of e] have "x \<noteq> 0" by auto
  then have "\<bar>x\<bar> < pow2 (binade x + 1)" using binade_bounds by blast
  with a have "pow2 e < pow2 (binade x + 1)" by simp
  then have "e < binade x + 1" by (rule pow2_less_imp)
  then show ?thesis by simp
qed

lemma binade_less: "x \<noteq> 0 \<Longrightarrow> \<bar>x\<bar> < pow2 e \<Longrightarrow> binade x < e"
proof -
  assume "x \<noteq> 0" and a: "\<bar>x\<bar> < pow2 e"
  then have "pow2 (binade x) \<le> \<bar>x\<bar>" using binade_bounds by blast
  with a have "pow2 (binade x) < pow2 e" by simp
  then show ?thesis by (rule pow2_less_imp)
qed

lemma roundHalfEven_le: "y \<le> of_int n \<Longrightarrow> roundHalfEven y \<le> n"
proof -
  assume a: "y \<le> of_int n"
  then have f: "\<lfloor>y\<rfloor> \<le> n" by (simp add: floor_le_iff)
  show ?thesis
  proof (cases "y - of_int \<lfloor>y\<rfloor> < 1 / 2")
    case True
    with f show ?thesis by (simp add: roundHalfEven_def Let_def)
  next
    case False
    have "\<lfloor>y\<rfloor> \<noteq> n"
    proof
      assume "\<lfloor>y\<rfloor> = n"
      then have "of_int n \<le> y" using of_int_floor_le [of y] by simp
      with a have "y = of_int n" by simp
      with False show False by simp
    qed
    with f have "\<lfloor>y\<rfloor> + 1 \<le> n" by simp
    with f show ?thesis by (auto simp add: roundHalfEven_def Let_def)
  qed
qed

text \<open>Rounding a negative number of the normal range keeps it at or below minus the power of
  two of its binade.\<close>

lemma roundDouble_neg:
  assumes "x < 0" "- 1022 \<le> binade x"
  shows "roundDouble x \<le> - pow2 (binade x)"
proof -
  let ?q = "binade x - 52"
  from assms(1) have nz: "x \<noteq> 0" by simp
  from assms(2) have q: "max (binade x) (- 1022) - 52 = ?q" by simp
  have b: "pow2 (binade x) \<le> - x" using binade_bounds [OF nz] assms(1) by simp
  have p: "pow2 (binade x) = 2 ^ 52 * pow2 ?q"
    using pow2_add_nat [of ?q 52] by simp
  from b p have "2 ^ 52 * pow2 ?q \<le> - x" by simp
  then have "2 ^ 52 \<le> (- x) / pow2 ?q"
    using pow2_pos [of ?q] by (simp only: pos_le_divide_eq)
  moreover have "x / pow2 ?q = - ((- x) / pow2 ?q)" by simp
  ultimately have "x / pow2 ?q \<le> - (2 ^ 52)" by linarith
  then have "x / pow2 ?q \<le> of_int (- (2 ^ 52))" by simp
  then have "roundHalfEven (x / pow2 ?q) \<le> - (2 ^ 52)" by (rule roundHalfEven_le)
  then have "(of_int (roundHalfEven (x / pow2 ?q)) :: rat) \<le> of_int (- (2 ^ 52))"
    by (simp only: of_int_le_iff)
  then have "of_int (roundHalfEven (x / pow2 ?q)) * pow2 ?q \<le> of_int (- (2 ^ 52)) * pow2 ?q"
    using pow2_pos [of ?q] by (simp only: mult_le_cancel_right_pos)
  then have "of_int (roundHalfEven (x / pow2 ?q)) * pow2 ?q \<le> - pow2 (binade x)"
    using p by simp
  then show ?thesis using nz q by (simp add: roundDouble_def Let_def)
qed

lemma isDouble_grid:
  assumes "isDouble x" "x \<noteq> 0"
  shows "\<exists>k::int. x = of_int k * pow2 (max (binade x) (- 1022) - 52)"
proof -
  from assms have "of_int (roundHalfEven (x / pow2 (max (binade x) (- 1022) - 52))) *
      pow2 (max (binade x) (- 1022) - 52) = x"
    by (simp add: isDouble_def roundDouble_def Let_def)
  then show ?thesis by metis
qed

text \<open>A double above 6 and at most 10 is at least \<open>2\<^sup>-\<^sup>5\<^sup>0\<close> above 6.\<close>

lemma double_above_six:
  assumes "isDouble s" "6 < s" "s \<le> 10"
  shows "6 - s \<le> - pow2 (- 50)"
proof -
  from assms(2) have nz: "s \<noteq> 0" by simp
  have "pow2 2 \<le> \<bar>s\<bar>" using assms(2) by (simp add: pow2_def)
  then have lo: "2 \<le> binade s" by (rule binade_ge)
  have "\<bar>s\<bar> < pow2 4" using assms(2,3) by (simp add: pow2_def)
  with nz have hi: "binade s < 4" by (rule binade_less)
  from lo have m: "max (binade s) (- 1022) - 52 = binade s - 52" by simp
  obtain k :: int where k: "s = of_int k * pow2 (binade s - 52)"
    using isDouble_grid [OF assms(1) nz] m by auto
  from lo hi have "binade s = 2 \<or> binade s = 3" by linarith
  then obtain j :: int where j: "s = of_int j * pow2 (- 50)"
  proof
    assume "binade s = 2"
    with k have "s = of_int k * pow2 (- 50)" by simp
    then show ?thesis using that by blast
  next
    assume "binade s = 3"
    with k have "s = of_int k * pow2 (- 49)" by simp
    also have "pow2 (- 49) = 2 * pow2 (- 50)" using pow2_Suc [of "- 50"] by simp
    finally have "s = of_int (2 * k) * pow2 (- 50)" by simp
    then show ?thesis using that by blast
  qed
  have six: "(6::rat) = of_int (6 * 2 ^ 50) * pow2 (- 50)" by (simp add: pow2_def)
  from assms(2) j six have "of_int (6 * 2 ^ 50) * pow2 (- 50) < of_int j * pow2 (- 50)" by simp
  then have "(of_int (6 * 2 ^ 50) :: rat) < of_int j"
    using pow2_pos [of "- 50"] by (simp only: mult_less_cancel_right_pos)
  then have "6 * 2 ^ 50 < j" by (simp only: of_int_less_iff)
  then have "6 * 2 ^ 50 + 1 \<le> j" by simp
  then have "(of_int (6 * 2 ^ 50 + 1) :: rat) \<le> of_int j" by (simp only: of_int_le_iff)
  then have "of_int (6 * 2 ^ 50 + 1) * pow2 (- 50) \<le> of_int j * pow2 (- 50)"
    using pow2_pos [of "- 50"] by (simp only: mult_le_cancel_right_pos)
  also have "of_int (6 * 2 ^ 50 + 1) * pow2 (- 50) = 6 + pow2 (- 50)"
    by (simp add: pow2_def)
  finally show ?thesis using j by simp
qed

text \<open>\<^verbatim>\<open>(6 - s) / 5\<close> in doubles is negative for every double \<open>s\<close> above 6 and at most 10.\<close>

lemma confidence_negative:
  assumes "isDouble s" "6 < s" "s \<le> 10"
  shows "jsDiv (jsSub 6 s) 5 < 0"
proof -
  let ?x = "6 - s"
  have x: "?x \<le> - pow2 (- 50)" using assms by (rule double_above_six)
  with pow2_pos [of "- 50"] have xneg: "?x < 0" by linarith
  from x xneg have "pow2 (- 50) \<le> \<bar>?x\<bar>" by simp
  then have bx: "- 50 \<le> binade ?x" by (rule binade_ge)
  then have "- 1022 \<le> binade ?x" by simp
  with xneg have "roundDouble ?x \<le> - pow2 (binade ?x)" by (rule roundDouble_neg)
  moreover have "pow2 (- 50) \<le> pow2 (binade ?x)" using bx by (rule pow2_mono)
  ultimately have y: "roundDouble ?x \<le> - pow2 (- 50)" by simp
  let ?z = "roundDouble ?x / 5"
  have "pow2 (- 53) = pow2 (- 50) / 8"
    using pow2_pred [of "- 50"] pow2_pred [of "- 51"] pow2_pred [of "- 52"] by simp
  with y pow2_pos [of "- 50"] have z: "?z \<le> - pow2 (- 53)" by simp
  with pow2_pos [of "- 53"] have zneg: "?z < 0" by linarith
  from z zneg have "pow2 (- 53) \<le> \<bar>?z\<bar>" by simp
  then have "- 53 \<le> binade ?z" by (rule binade_ge)
  then have "- 1022 \<le> binade ?z" by simp
  with zneg have "roundDouble ?z \<le> - pow2 (binade ?z)" by (rule roundDouble_neg)
  with pow2_pos [of "binade ?z"] show ?thesis by (simp add: jsDiv_def jsSub_def)
qed

lemma roundHalfEven_int: "roundHalfEven (of_int m) = m"
  by (simp add: roundHalfEven_def Let_def)

lemma pow2_diff_nat: "q \<le> e \<Longrightarrow> pow2 e = 2 ^ nat (e - q) * pow2 q"
  using pow2_add_nat [of q "nat (e - q)"] by simp

text \<open>A number on the grid of its binade is a double.\<close>

lemma on_grid_isDouble:
  assumes "x = of_int m * pow2 (max (binade x) (- 1022) - 52)"
  shows "isDouble x"
proof (cases "x = 0")
  case True
  then show ?thesis by (simp add: isDouble_def roundDouble_def)
next
  case False
  let ?q = "max (binade x) (- 1022) - 52"
  have "pow2 ?q \<noteq> 0" using pow2_pos [of ?q] by simp
  with assms have "x / pow2 ?q = of_int m" by (simp add: field_simps)
  then have "roundHalfEven (x / pow2 ?q) = m" by (simp only: roundHalfEven_int)
  with assms False show ?thesis by (simp add: isDouble_def roundDouble_def Let_def)
qed

lemma small_multiple_isDouble:
  assumes x: "x = of_int k * pow2 e" and k: "\<bar>k\<bar> < 2 ^ 53" and e: "- 1074 \<le> e"
  shows "isDouble x"
proof (cases "x = 0")
  case True
  then show ?thesis by (simp add: isDouble_def roundDouble_def)
next
  case False
  let ?q = "max (binade x) (- 1022) - 52"
  have "(of_int \<bar>k\<bar> :: rat) < of_int (2 ^ 53)" using k by (simp only: of_int_less_iff)
  then have "(of_int \<bar>k\<bar> :: rat) * pow2 e < 2 ^ 53 * pow2 e"
    using pow2_pos [of e] by simp
  moreover have "\<bar>x\<bar> = of_int \<bar>k\<bar> * pow2 e"
    using pow2_pos [of e] by (simp add: x abs_mult)
  moreover have "pow2 (e + 53) = 2 ^ 53 * pow2 e" using pow2_add_nat [of e 53] by simp
  ultimately have "\<bar>x\<bar> < pow2 (e + 53)" by simp
  with False have "binade x < e + 53" by (rule binade_less)
  with e have qe: "?q \<le> e" by simp
  then have "pow2 e = 2 ^ nat (e - ?q) * pow2 ?q" by (rule pow2_diff_nat)
  with x have "x = of_int (k * 2 ^ nat (e - ?q)) * pow2 ?q" by simp
  then show ?thesis by (rule on_grid_isDouble)
qed

lemma multiple_isDouble:
  assumes x: "x = of_int k * pow2 e" and k: "\<bar>k\<bar> \<le> 2 ^ 53" and e: "- 1074 \<le> e"
  shows "isDouble x"
proof (cases "\<bar>k\<bar> < 2 ^ 53")
  case True
  with x e show ?thesis by (intro small_multiple_isDouble [of x k e])
next
  case False
  with k have "\<bar>k\<bar> = 2 ^ 53" by simp
  then have "k = 2 ^ 53 \<or> k = - (2 ^ 53)" by linarith
  then have "k = 2 * (k div 2)" by (elim disjE) simp_all
  then have "(of_int k :: rat) = of_int (k div 2) * 2" by (metis mult.commute of_int_mult of_int_numeral)
  with x have "x = of_int (k div 2) * pow2 (e + 1)" by (simp add: pow2_Suc)
  moreover have "\<bar>k div 2\<bar> < 2 ^ 53" using \<open>k = 2 ^ 53 \<or> k = - (2 ^ 53)\<close> by (elim disjE) simp_all
  moreover have "- 1074 \<le> e + 1" using e by simp
  ultimately show ?thesis by (rule small_multiple_isDouble)
qed

text \<open>A double between 2 and 10 is a multiple of \<open>2\<^sup>-\<^sup>5\<^sup>1\<close>.\<close>

lemma severity_grid:
  assumes "isDouble s" "2 \<le> s" "s \<le> 10"
  shows "\<exists>j::int. s = of_int j * pow2 (- 51)"
proof -
  from assms(2) have nz: "s \<noteq> 0" by simp
  have "pow2 1 \<le> \<bar>s\<bar>" using assms(2) by (simp add: pow2_def)
  then have lo: "1 \<le> binade s" by (rule binade_ge)
  have "\<bar>s\<bar> < pow2 4" using assms(2,3) by (simp add: pow2_def)
  with nz have hi: "binade s < 4" by (rule binade_less)
  from lo have m: "max (binade s) (- 1022) = binade s" by simp
  obtain k :: int where k: "s = of_int k * pow2 (binade s - 52)"
    using isDouble_grid [OF assms(1) nz] m by auto
  have "- 51 \<le> binade s - 52" using lo by simp
  then have "pow2 (binade s - 52) = 2 ^ nat (binade s - 52 - (- 51)) * pow2 (- 51)"
    by (rule pow2_diff_nat)
  with k have "s = of_int (k * 2 ^ nat (binade s - 52 - (- 51))) * pow2 (- 51)" by simp
  then show ?thesis by blast
qed

text \<open>For a double severity within the schema's bounds the subtraction \<^verbatim>\<open>6 - severity\<close> is
  exact, so the confidence is the exact quotient rounded once.\<close>

lemma six_minus_exact:
  assumes "isDouble s" "2 \<le> s" "s \<le> 10"
  shows "jsSub 6 s = 6 - s"
proof -
  obtain j :: int where j: "s = of_int j * pow2 (- 51)"
    using severity_grid [OF assms] by blast
  have p: "pow2 (- 51) * 2 ^ 51 = 1" by (simp add: pow2_def)
  have six: "(6::rat) = of_int (6 * 2 ^ 51) * pow2 (- 51)" by (simp add: pow2_def)
  have d: "6 - s = of_int (6 * 2 ^ 51 - j) * pow2 (- 51)"
    by (simp add: j pow2_def field_simps)
  have "\<bar>6 - s\<bar> \<le> 4" using assms(2,3) by simp
  with d have "\<bar>(of_int (6 * 2 ^ 51 - j) :: rat) * pow2 (- 51)\<bar> \<le> 4" by simp
  then have "\<bar>(of_int (6 * 2 ^ 51 - j) :: rat)\<bar> \<le> 4 * 2 ^ 51"
    by (simp add: pow2_def abs_mult field_simps)
  then have "(of_int \<bar>6 * 2 ^ 51 - j\<bar> :: rat) \<le> of_int (2 ^ 53)" by simp
  then have "\<bar>6 * 2 ^ 51 - j\<bar> \<le> 2 ^ 53" by (simp only: of_int_le_iff)
  with d have "isDouble (6 - s)" by (intro multiple_isDouble [of "6 - s" "6 * 2 ^ 51 - j" "- 51"]) simp_all
  then show ?thesis by (simp add: jsSub_def isDouble_def)
qed

lemma confidence_once_rounded:
  assumes "isDouble s" "2 \<le> s" "s \<le> 10"
  shows "jsDiv (jsSub 6 s) 5 = roundDouble ((6 - s) / 5)"
  using six_minus_exact [OF assms] by (simp add: jsDiv_def)

text \<open>The confidence of severity 10 is the double that \<^verbatim>\<open>-0.8\<close> denotes. For a severity of
  5.7 the double computed differs from the exact quotient.\<close>

lemma confidence_of_ten: "jsDiv (jsSub 6 10) 5 = roundDouble (- (8 / 10))"
  by code_simp

lemma minus_point_eight: "roundDouble (- (8 / 10)) = - (3602879701896397 / 4503599627370496)"
  by code_simp

lemma confidence_rounded:
  "jsDiv (jsSub 6 (roundDouble (57 / 10))) 5 = 8646911284551347 / 144115188075855872 \<and>
   jsDiv (jsSub 6 (roundDouble (57 / 10))) 5 \<noteq> (6 - roundDouble (57 / 10)) / 5"
  by code_simp

lemma isDouble_ten: "isDouble 10"
  by code_simp

subsection \<open>Decimal rendering is injective\<close>

lemma digit_inj: "m < 10 \<Longrightarrow> n < 10 \<Longrightarrow> digit m = digit n \<Longrightarrow> m = n"
proof -
  assume a: "m < 10" "n < 10" "digit m = digit n"
  have d: "distinct ''0123456789''" by simp
  have l: "length ''0123456789'' = 10" by simp
  from a d l show ?thesis unfolding digit_def
    by (simp add: nth_eq_iff_index_eq)
qed

lemma digit_mem: "n < 10 \<Longrightarrow> digit n \<in> set ''0123456789''"
proof -
  assume a: "n < 10"
  have l: "length ''0123456789'' = 10" by simp
  from a l have "''0123456789'' ! n \<in> set ''0123456789''" by (simp only: nth_mem)
  then show ?thesis by (simp only: digit_def)
qed

lemma showNat_digits: "set (showNat n) \<subseteq> set ''0123456789''"
proof (induction n rule: showNat.induct)
  case (1 n)
  show ?case
  proof (cases "n < 10")
    case True
    then show ?thesis using digit_mem [of n] by (subst showNat.simps) simp
  next
    case False
    have "n mod 10 < 10" by simp
    then have "digit (n mod 10) \<in> set ''0123456789''" by (rule digit_mem)
    with False "1.IH" show ?thesis by (subst showNat.simps) simp
  qed
qed

lemma showNat_nonempty: "showNat n \<noteq> []"
  by (subst showNat.simps) simp

lemma showNat_length_ge2: "\<not> n < 10 \<Longrightarrow> 2 \<le> length (showNat n)"
proof -
  assume a: "\<not> n < 10"
  have "showNat (n div 10) \<noteq> []" by (rule showNat_nonempty)
  then have "1 \<le> length (showNat (n div 10))" by (cases "showNat (n div 10)") simp_all
  with a show ?thesis by (subst showNat.simps) simp
qed

lemma showNat_inj: "showNat m = showNat n \<Longrightarrow> m = n"
proof (induction m arbitrary: n rule: showNat.induct)
  case (1 m)
  show ?case
  proof (cases "m < 10")
    case mt: True
    show ?thesis
    proof (cases "n < 10")
      case True
      from "1.prems" mt True have "digit m = digit n" by (simp add: showNat.simps)
      with mt True show ?thesis by (rule digit_inj)
    next
      case False
      from mt have "length (showNat m) = 1" by (simp add: showNat.simps)
      moreover from False have "2 \<le> length (showNat n)" by (rule showNat_length_ge2)
      ultimately show ?thesis using "1.prems" by simp
    qed
  next
    case mf: False
    show ?thesis
    proof (cases "n < 10")
      case True
      then have "length (showNat n) = 1" by (simp add: showNat.simps)
      moreover from mf have "2 \<le> length (showNat m)" by (rule showNat_length_ge2)
      ultimately show ?thesis using "1.prems" by simp
    next
      case False
      have sm: "showNat m = showNat (m div 10) @ [digit (m mod 10)]"
        using mf by (subst showNat.simps) simp
      have sn: "showNat n = showNat (n div 10) @ [digit (n mod 10)]"
        using False by (subst showNat.simps) simp
      from "1.prems"
      have "showNat (m div 10) @ [digit (m mod 10)] = showNat (n div 10) @ [digit (n mod 10)]"
        by (simp only: sm sn)
      then have e: "showNat (m div 10) = showNat (n div 10)" "digit (m mod 10) = digit (n mod 10)"
        by simp_all
      from mf e(1) have q: "m div 10 = n div 10" by (rule "1.IH")
      have "m mod 10 < 10" "n mod 10 < 10" by simp_all
      then have r: "m mod 10 = n mod 10" using e(2) by (rule digit_inj)
      have "m = 10 * (m div 10) + m mod 10" by simp
      also have "\<dots> = 10 * (n div 10) + n mod 10" by (simp only: q r)
      also have "\<dots> = n" by simp
      finally show ?thesis .
    qed
  qed
qed

lemma showNat_no_minus: "CHR ''-'' \<notin> set (showNat n)"
proof
  assume "CHR ''-'' \<in> set (showNat n)"
  with showNat_digits [of n] have "CHR ''-'' \<in> set ''0123456789''" by (rule subsetD)
  then show False by simp
qed

lemma showNat_hd: "hd (showNat n) \<in> set ''0123456789''"
proof -
  have "hd (showNat n) \<in> set (showNat n)" using showNat_nonempty by (rule hd_in_set)
  with showNat_digits [of n] show ?thesis by (rule subsetD)
qed

lemma showInt_hd: "hd (showInt i) \<in> set ''-0123456789''"
proof (cases "i < 0")
  case True
  then show ?thesis by (simp add: showInt_def)
next
  case False
  have "hd (showNat (nat i)) \<in> set ''0123456789''" by (rule showNat_hd)
  then have "hd (showNat (nat i)) \<in> set ''-0123456789''" by (simp only: list.set insert_iff) blast
  with False show ?thesis by (simp only: showInt_def if_False)
qed

lemma showInt_nonempty: "showInt i \<noteq> []"
  by (simp add: showInt_def showNat_nonempty)

lemma showInt_inj: "showInt i = showInt j \<Longrightarrow> i = j"
proof -
  assume a: "showInt i = showInt j"
  have h: "\<And>n. hd (showNat n) \<noteq> CHR ''-''"
  proof -
    fix n
    have "hd (showNat n) \<in> set (showNat n)" using showNat_nonempty by (rule hd_in_set)
    with showNat_no_minus [of n] show "hd (showNat n) \<noteq> CHR ''-''" by auto
  qed
  show ?thesis
  proof (cases "i < 0")
    case it: True
    show ?thesis
    proof (cases "j < 0")
      case True
      with it a have "nat (- i) = nat (- j)" by (simp add: showInt_def showNat_inj)
      with it True show ?thesis by simp
    next
      case False
      with it a have "showNat (nat j) = CHR ''-'' # showNat (nat (- i))" by (simp add: showInt_def)
      then have "hd (showNat (nat j)) = CHR ''-''" by simp
      with h show ?thesis by blast
    qed
  next
    case inn: False
    show ?thesis
    proof (cases "j < 0")
      case True
      with inn a have "showNat (nat i) = CHR ''-'' # showNat (nat (- j))" by (simp add: showInt_def)
      then have "hd (showNat (nat i)) = CHR ''-''" by simp
      with h show ?thesis by blast
    next
      case False
      with inn a have "nat i = nat j" by (simp add: showInt_def showNat_inj)
      with inn False show ?thesis by simp
    qed
  qed
qed

text \<open>A rendered integer never starts with a letter.\<close>

lemma showInt_not_letter:
  "c \<notin> set ''-0123456789'' \<Longrightarrow> showInt i \<noteq> c # rest"
proof
  assume c: "c \<notin> set ''-0123456789''" and e: "showInt i = c # rest"
  from e have "hd (showInt i) = c" by simp
  with showInt_hd [of i] c show False by simp
qed

subsection \<open>Identifiers of the initial batch\<close>

lemma search_id_inj:
  assumes "t \<noteq> AllSources" "t' \<noteq> AllSources"
    and "''search-'' @ sourceName t @ ''-'' @ showNat i = ''search-'' @ sourceName t' @ ''-'' @ showNat j"
  shows "t = t' \<and> i = j"
  using assms by (cases t; cases t') (auto dest: showNat_inj)

lemma searchStepsOf_id:
  assumes "st \<in> set (searchStepsOf (i, q))"
  shows "step_id st = ''search-'' @ sourceName (step_type st) @ ''-'' @ showNat i
         \<and> step_type st \<noteq> AllSources \<and> step_query st = q"
  using assms by (auto simp: searchStepsOf_def Let_def split: if_splits)

lemma searchStepsOf_length:
  "length (searchStepsOf (i, q)) = (if source q = AllSources then 3 else 1)"
  by (simp add: searchStepsOf_def Let_def)

lemma searchStepsOf_types:
  "map step_type (searchStepsOf (i, q)) =
     (if source q = AllSources then [Web, Academic, X] else [source q])"
  by (cases "source q") (simp_all add: searchStepsOf_def Let_def)

lemma searchStepsOf_distinct: "distinct (map step_id (searchStepsOf (i, q)))"
  by (simp add: searchStepsOf_def Let_def)

lemma searchSteps_index:
  "st \<in> set (concat (map searchStepsOf (enumerate n qs))) \<Longrightarrow>
   \<exists>i\<ge>n. step_id st = ''search-'' @ sourceName (step_type st) @ ''-'' @ showNat i
        \<and> step_type st \<noteq> AllSources"
proof (induction qs arbitrary: n)
  case Nil
  then show ?case by simp
next
  case (Cons q qs)
  from Cons.prems have "st \<in> set (searchStepsOf (n, q)) \<or>
      st \<in> set (concat (map searchStepsOf (enumerate (Suc n) qs)))" by simp
  then show ?case
  proof
    assume "st \<in> set (searchStepsOf (n, q))"
    then show ?thesis using searchStepsOf_id [of st n q] by blast
  next
    assume "st \<in> set (concat (map searchStepsOf (enumerate (Suc n) qs)))"
    then obtain i where "i \<ge> Suc n"
      "step_id st = ''search-'' @ sourceName (step_type st) @ ''-'' @ showNat i \<and> step_type st \<noteq> AllSources"
      using Cons.IH by blast
    then show ?thesis by (metis Suc_leD)
  qed
qed

lemma searchSteps_distinct:
  "distinct (map step_id (concat (map searchStepsOf (enumerate n qs))))"
proof (induction qs arbitrary: n)
  case Nil
  then show ?case by simp
next
  case (Cons q qs)
  have disj: "set (map step_id (searchStepsOf (n, q))) \<inter>
        set (map step_id (concat (map searchStepsOf (enumerate (Suc n) qs)))) = {}"
  proof (rule ccontr)
    assume "\<not> ?thesis"
    then obtain a b where a: "a \<in> set (searchStepsOf (n, q))"
      and b: "b \<in> set (concat (map searchStepsOf (enumerate (Suc n) qs)))"
      and e: "step_id a = step_id b" by auto
    from a have ia: "step_id a = ''search-'' @ sourceName (step_type a) @ ''-'' @ showNat n"
      "step_type a \<noteq> AllSources" using searchStepsOf_id by blast+
    from b obtain i where i: "i \<ge> Suc n"
      "step_id b = ''search-'' @ sourceName (step_type b) @ ''-'' @ showNat i"
      "step_type b \<noteq> AllSources" using searchSteps_index by blast
    from ia i e have "n = i" using search_id_inj [of "step_type a" "step_type b" n i] by simp
    with i(1) show False by simp
  qed
  have "map step_id (concat (map searchStepsOf (enumerate n (q # qs)))) =
        map step_id (searchStepsOf (n, q)) @
        map step_id (concat (map searchStepsOf (enumerate (Suc n) qs)))" by simp
  moreover have "distinct (\<dots>)"
    using searchStepsOf_distinct [of n q] Cons.IH [of "Suc n"] disj
    by (simp only: distinct_append)
  ultimately show ?case by (simp only:)
qed

lemma searchSteps_length:
  "length (concat (map searchStepsOf (enumerate n qs))) =
     sum_list (map (\<lambda>q. if source q = AllSources then 3 else 1) qs)"
  by (induction qs arbitrary: n) (simp_all add: searchStepsOf_length)

lemma analysisSteps_length [simp]:
  "length (analysisSteps (generateStepIds plan)) = length (required_analyses plan)"
  by (simp add: generateStepIds_def)

lemma generated_step_type:
  "st \<in> set (searchSteps (generateStepIds plan)) \<Longrightarrow> step_type st \<noteq> AllSources"
  using searchSteps_index [of st 0 "search_queries plan"] by (auto simp: generateStepIds_def)

subsection \<open>One search step\<close>

lemma searchStep_dataStream [simp]: "dataStream (searchStep env depth step s) = dataStream s"
  by (simp add: searchStep_def webStep_def academicStep_def xStep_def Let_def)

lemma searchStep_analysisIndex [simp]:
  "analysisIndex (searchStep env depth step s) = analysisIndex s"
  by (simp add: searchStep_def webStep_def academicStep_def xStep_def Let_def)

lemma searchStep_searchIndex [simp]:
  "searchIndex (searchStep env depth step s) = searchIndex s + 1"
  by (simp add: searchStep_def webStep_def academicStep_def xStep_def Let_def)

lemma searchStep_adapterCalls:
  "adapterCalls (searchStep env depth step s) = adapterCalls s @ stepCalls depth step"
  by (simp add: searchStep_def webStep_def academicStep_def xStep_def Let_def stepCalls_def)

lemma searchStep_searchResults:
  "searchResults (searchStep env depth step s) =
     searchResults s @ (if stepSucceeds env depth step then [stepResult env depth step] else [])"
  by (cases "step_type step")
     (simp_all add: searchStep_def webStep_def academicStep_def xStep_def Let_def
        stepSucceeds_def adapterError_def stepResult_def)

lemma searchStep_completedSteps:
  "completedSteps (searchStep env depth step s) =
     completedSteps s + (if stepSucceeds env depth step then 1 else 0)"
  by (cases "step_type step")
     (simp_all add: searchStep_def webStep_def academicStep_def xStep_def Let_def
        stepSucceeds_def adapterError_def)

subsection \<open>The search loop\<close>

lemma searchLoop_dataStream [simp]: "dataStream (searchLoop env depth steps s) = dataStream s"
  by (induction steps arbitrary: s) simp_all

lemma searchLoop_analysisIndex [simp]:
  "analysisIndex (searchLoop env depth steps s) = analysisIndex s"
  by (induction steps arbitrary: s) simp_all

lemma searchLoop_searchIndex:
  "searchIndex (searchLoop env depth steps s) = searchIndex s + int (length steps)"
  by (induction steps arbitrary: s) simp_all

lemma searchLoop_adapterCalls:
  "adapterCalls (searchLoop env depth steps s) =
     adapterCalls s @ concat (map (stepCalls depth) steps)"
  by (induction steps arbitrary: s) (simp_all add: searchStep_adapterCalls)

lemma searchLoop_searchResults:
  "searchResults (searchLoop env depth steps s) =
     searchResults s @ map (stepResult env depth) (filter (stepSucceeds env depth) steps)"
  by (induction steps arbitrary: s) (simp_all add: searchStep_searchResults)

lemma searchLoop_completedSteps:
  "completedSteps (searchLoop env depth steps s) =
     completedSteps s + int (length (filter (stepSucceeds env depth) steps))"
  by (induction steps arbitrary: s) (simp_all add: searchStep_completedSteps)

lemma searchLoop_append:
  "searchLoop env depth (xs @ ys) s = searchLoop env depth ys (searchLoop env depth xs s)"
  by (induction xs arbitrary: s) simp_all

lemma stepCalls_id:
  "step_type step \<noteq> AllSources \<Longrightarrow> map callStepId (stepCalls depth step) = [step_id step]"
  by (cases "step_type step") (simp_all add: stepCalls_def webArgs_def academicArgs_def xArgs_def)

lemma stepCalls_ids:
  "list_all (\<lambda>st. step_type st \<noteq> AllSources) steps \<Longrightarrow>
   map callStepId (concat (map (stepCalls depth) steps)) = map step_id steps"
  by (induction steps) (simp_all add: stepCalls_id)

subsection \<open>The analysis loop\<close>

lemma writeMessageAnnotation_fields [simp]:
  "dataStream (writeMessageAnnotation a s) = dataStream s @ [a]"
  "searchResults (writeMessageAnnotation a s) = searchResults s"
  "completedSteps (writeMessageAnnotation a s) = completedSteps s"
  "searchIndex (writeMessageAnnotation a s) = searchIndex s"
  "analysisIndex (writeMessageAnnotation a s) = analysisIndex s"
  "adapterCalls (writeMessageAnnotation a s) = adapterCalls s"
  by (simp_all add: writeMessageAnnotation_def)

lemma analysisLoop_frame:
  "completedSteps (finalState (analysisLoop env steps s)) = completedSteps s \<and>
   searchResults (finalState (analysisLoop env steps s)) = searchResults s \<and>
   searchIndex (finalState (analysisLoop env steps s)) = searchIndex s \<and>
   adapterCalls (finalState (analysisLoop env steps s)) = adapterCalls s"
  by (induction steps arbitrary: s) (simp_all add: Let_def split: option.split)

lemma analysisLoop_dataStream:
  "\<exists>ys. dataStream (finalState (analysisLoop env steps s)) = dataStream s @ ys \<and>
        list_all (analysisAnnotation steps) ys"
proof (induction steps arbitrary: s)
  case Nil
  then show ?case by simp
next
  case (Cons step steps)
  let ?s1 = "writeMessageAnnotation (analysisRunning step) s"
  have r: "analysisAnnotation (step # steps) (analysisRunning step)"
    by (auto simp: analysisAnnotation_def)
  have mono: "\<And>ys. list_all (analysisAnnotation steps) ys \<Longrightarrow>
                    list_all (analysisAnnotation (step # steps)) ys"
    by (auto simp: list_all_iff analysisAnnotation_def)
  show ?case
  proof (cases "generateObject analysisResultSchema (llmAnalysis env step (searchResults ?s1))")
    case None
    then have "dataStream (finalState (analysisLoop env (step # steps) s)) =
               dataStream s @ [analysisRunning step]" by (simp add: Let_def)
    with r show ?thesis by simp
  next
    case (Some res)
    let ?s2 = "writeMessageAnnotation (analysisCompleted step res) ?s1"
    let ?s3 = "?s2\<lparr>analysisIndex := analysisIndex ?s2 + 1\<rparr>"
    from Some have e: "analysisLoop env (step # steps) s = analysisLoop env steps ?s3"
      by (simp add: Let_def)
    obtain ys where ys: "dataStream (finalState (analysisLoop env steps ?s3)) = dataStream ?s3 @ ys"
      "list_all (analysisAnnotation steps) ys" using Cons.IH by blast
    have c: "analysisAnnotation (step # steps) (analysisCompleted step res)"
      by (auto simp: analysisAnnotation_def)
    have "dataStream (finalState (analysisLoop env (step # steps) s)) =
          dataStream s @ (analysisRunning step # analysisCompleted step res # ys)"
      using e ys(1) by simp
    moreover have "list_all (analysisAnnotation (step # steps))
          (analysisRunning step # analysisCompleted step res # ys)"
      using r c mono [OF ys(2)] by simp
    ultimately show ?thesis by blast
  qed
qed

subsection \<open>One gap query\<close>

lemma gapSearch_dataStream [simp]: "dataStream (gapSearch env depth q s) = dataStream s"
  by (simp add: gapSearch_def gapWebSearch_def gapAcademicSearch_def gapXSearch_def Let_def)

lemma gapSearch_completedSteps [simp]:
  "completedSteps (gapSearch env depth q s) = completedSteps s"
  by (simp add: gapSearch_def gapWebSearch_def gapAcademicSearch_def gapXSearch_def Let_def)

lemma gapSearch_searchIndex:
  "searchIndex (gapSearch env depth q s) = searchIndex s + gapAdvance q"
  by (cases "source q")
     (simp_all add: gapSearch_def gapWebSearch_def gapAcademicSearch_def gapXSearch_def Let_def
        gapAdvance_def)

lemma gapSearch_stepIds:
  "map callStepId (adapterCalls (gapSearch env depth q s)) =
     map callStepId (adapterCalls s) @ gapIds (searchIndex s) q"
  by (cases "source q")
     (simp_all add: gapSearch_def gapWebSearch_def gapAcademicSearch_def gapXSearch_def Let_def
        gapIds_def add.commute)

lemma gapSearch_results:
  "\<exists>rs. searchResults (gapSearch env depth q s) = searchResults s @ rs \<and>
         map result_type rs = gapTypes q"
  by (cases "source q")
     (simp_all add: gapSearch_def gapWebSearch_def gapAcademicSearch_def gapXSearch_def Let_def
        gapTypes_def)

subsection \<open>The gap loop\<close>

lemma gapSearchLoop_dataStream [simp]:
  "dataStream (gapSearchLoop env depth qs s) = dataStream s"
  by (induction qs arbitrary: s) simp_all

lemma gapSearchLoop_completedSteps [simp]:
  "completedSteps (gapSearchLoop env depth qs s) = completedSteps s"
  by (induction qs arbitrary: s) simp_all

lemma gapSearchLoop_searchIndex:
  "searchIndex (gapSearchLoop env depth qs s) = searchIndex s + sum_list (map gapAdvance qs)"
  by (induction qs arbitrary: s) (simp_all add: gapSearch_searchIndex)

lemma gapSearchLoop_stepIds:
  "map callStepId (adapterCalls (gapSearchLoop env depth qs s)) =
     map callStepId (adapterCalls s) @ gapLoopIds (searchIndex s) qs"
  by (induction qs arbitrary: s) (simp_all add: gapSearch_stepIds gapSearch_searchIndex)

lemma gapSearchLoop_results:
  "\<exists>rs. searchResults (gapSearchLoop env depth qs s) = searchResults s @ rs \<and>
         map result_type rs = concat (map gapTypes qs)"
proof (induction qs arbitrary: s)
  case Nil
  then show ?case by simp
next
  case (Cons q qs)
  obtain r1 where r1: "searchResults (gapSearch env depth q s) = searchResults s @ r1"
    "map result_type r1 = gapTypes q" using gapSearch_results by blast
  obtain r2 where r2: "searchResults (gapSearchLoop env depth qs (gapSearch env depth q s)) =
      searchResults (gapSearch env depth q s) @ r2" "map result_type r2 = concat (map gapTypes qs)"
    using Cons.IH by blast
  have "searchResults (gapSearchLoop env depth (q # qs) s) = searchResults s @ (r1 @ r2)"
    using r1(1) r2(1) by simp
  moreover have "map result_type (r1 @ r2) = concat (map gapTypes (q # qs))"
    using r1(2) r2(2) by simp
  ultimately show ?case by blast
qed

subsection \<open>Gap identifiers are pairwise different\<close>

lemma gapIdOf_inj: "gapIdOf k i = gapIdOf k' j \<Longrightarrow> k = k' \<and> i = j"
proof -
  assume e: "gapIdOf k i = gapIdOf k' j"
  have w: "\<And>a b. showInt a \<noteq> CHR ''w'' # ''eb-'' @ showInt b" by (rule showInt_not_letter) simp
  have a: "\<And>a b. showInt a \<noteq> CHR ''a'' # ''cademic-'' @ showInt b"
    by (rule showInt_not_letter) simp
  have x: "\<And>a b. showInt a \<noteq> CHR ''x'' # ''-'' @ showInt b" by (rule showInt_not_letter) simp
  show ?thesis
  proof (cases k)
    case PlainId
    with e w [of i j] a [of i j] x [of i j] show ?thesis
      by (cases k') (auto dest: showInt_inj)
  next
    case WebId
    with e w [of j i] show ?thesis by (cases k') (auto dest: showInt_inj)
  next
    case AcademicId
    with e a [of j i] show ?thesis by (cases k') (auto dest: showInt_inj)
  next
    case XId
    with e x [of j i] show ?thesis by (cases k') (auto dest: showInt_inj)
  qed
qed

lemma gapIdOf_eq [simp]: "(gapIdOf k i = gapIdOf k' j) = (k = k' \<and> i = j)"
  using gapIdOf_inj by blast

lemma gapIds_alt:
  "gapIds n q =
     (if source q = AllSources
      then [gapIdOf WebId (n - 2), gapIdOf AcademicId (n + 1), gapIdOf XId (n + 2)]
      else [gapIdOf PlainId n])"
  by (simp add: gapIds_def)

declare gapIdOf.simps [simp del]

lemma gapIdFrom_mono: "gapIdFrom m str \<Longrightarrow> n \<le> m \<Longrightarrow> gapIdFrom n str"
  unfolding gapIdFrom_def by (elim disjE exE conjE) force+

lemma gapAdvance_pos: "1 \<le> gapAdvance q"
  by (simp add: gapAdvance_def)

lemma gapIds_from: "x \<in> set (gapIds n q) \<Longrightarrow> gapIdFrom n x"
  unfolding gapIds_alt gapIdFrom_def by (auto split: if_splits)

lemma gapLoopIds_from: "x \<in> set (gapLoopIds n qs) \<Longrightarrow> gapIdFrom n x"
proof (induction qs arbitrary: n)
  case Nil
  then show ?case by simp
next
  case (Cons q qs)
  from Cons.prems have "x \<in> set (gapIds n q) \<or> x \<in> set (gapLoopIds (n + gapAdvance q) qs)"
    by simp
  then show ?case
  proof
    assume "x \<in> set (gapIds n q)"
    then show ?thesis by (rule gapIds_from)
  next
    assume "x \<in> set (gapLoopIds (n + gapAdvance q) qs)"
    then have "gapIdFrom (n + gapAdvance q) x" by (rule Cons.IH)
    moreover have "n \<le> n + gapAdvance q" using gapAdvance_pos [of q] by simp
    ultimately show ?thesis by (rule gapIdFrom_mono)
  qed
qed

lemma gapIds_fresh: "x \<in> set (gapIds n q) \<Longrightarrow> \<not> gapIdFrom (n + gapAdvance q) x"
  unfolding gapIds_alt gapIdFrom_def gapAdvance_def
  by (auto split: if_splits)

lemma gapIds_distinct: "distinct (gapIds n q)"
  by (simp add: gapIds_alt)

lemma gapLoopIds_distinct: "distinct (gapLoopIds n qs)"
proof (induction qs arbitrary: n)
  case Nil
  then show ?case by simp
next
  case (Cons q qs)
  have "set (gapIds n q) \<inter> set (gapLoopIds (n + gapAdvance q) qs) = {}"
    using gapIds_fresh gapLoopIds_from by blast
  with gapIds_distinct [of n q] Cons.IH [of "n + gapAdvance q"] show ?case by simp
qed

lemma gapLoopIds_prefix: "x \<in> set (gapLoopIds n qs) \<Longrightarrow> \<exists>rest. x = ''gap-search-'' @ rest"
  using gapLoopIds_from [of x n qs] unfolding gapIdFrom_def by (auto simp: gapIdOf.simps)

lemma searchSteps_prefix:
  "st \<in> set (searchSteps (generateStepIds plan)) \<Longrightarrow> \<exists>rest. step_id st = ''search-'' @ rest"
  using searchSteps_index [of st 0 "search_queries plan"] by (auto simp: generateStepIds_def)

lemma analysisSteps_prefix:
  "st \<in> set (analysisSteps (generateStepIds plan)) \<Longrightarrow>
   \<exists>rest. analysis_id st = ''analysis-'' @ rest"
  by (auto simp: generateStepIds_def analysisStepOf_def)

lemma analysisSteps_ids:
  "map analysis_id (map analysisStepOf (enumerate n as)) =
     map (\<lambda>i. ''analysis-'' @ showNat i) [n..<n + length as]"
proof -
  have "map analysis_id (map analysisStepOf (enumerate n as)) =
        map ((\<lambda>i. ''analysis-'' @ showNat i) \<circ> fst) (enumerate n as)"
    by (simp add: analysisStepOf_def comp_def)
  also have "\<dots> = map (\<lambda>i. ''analysis-'' @ showNat i) (map fst (enumerate n as))"
    by (simp only: map_map)
  also have "\<dots> = map (\<lambda>i. ''analysis-'' @ showNat i) [n..<n + length as]"
    by (simp only: map_fst_enumerate)
  finally show ?thesis .
qed

lemma analysisSteps_distinct_from:
  "distinct (map analysis_id (map analysisStepOf (enumerate n as)))"
proof -
  have "inj (\<lambda>i. ''analysis-'' @ showNat i)"
    by (rule injI) (auto dest: showNat_inj)
  then have "inj_on (\<lambda>i. ''analysis-'' @ showNat i) (set [n..<n + length as])"
    by (rule inj_on_subset) simp
  then have "distinct (map (\<lambda>i. ''analysis-'' @ showNat i) [n..<n + length as])"
    by (simp only: distinct_map distinct_upt simp_thms)
  then show ?thesis by (simp only: analysisSteps_ids)
qed

lemma analysisSteps_distinct: "distinct (map analysis_id (analysisSteps (generateStepIds plan)))"
  using analysisSteps_distinct_from [of 0 "required_analyses plan"] by (simp add: generateStepIds_def)

lemma generated_searchSteps_distinct: "distinct (map step_id (searchSteps (generateStepIds plan)))"
  using searchSteps_distinct [of 0 "search_queries plan"] by (simp add: generateStepIds_def)

text \<open>All identifiers of a run with a given plan: initial searches, gap searches, analyses.\<close>

lemma run_ids_distinct:
  "distinct (map step_id (searchSteps (generateStepIds plan)) @ gapLoopIds n qs @
             map analysis_id (analysisSteps (generateStepIds plan)))"
proof -
  have sg: "set (map step_id (searchSteps (generateStepIds plan))) \<inter> set (gapLoopIds n qs) = {}"
  proof (rule ccontr)
    assume "\<not> ?thesis"
    then obtain st where "st \<in> set (searchSteps (generateStepIds plan))"
      "step_id st \<in> set (gapLoopIds n qs)" by auto
    then obtain r1 r2 where "step_id st = ''search-'' @ r1" "step_id st = ''gap-search-'' @ r2"
      using searchSteps_prefix gapLoopIds_prefix by blast
    then show False by simp
  qed
  have sa: "set (map step_id (searchSteps (generateStepIds plan))) \<inter>
            set (map analysis_id (analysisSteps (generateStepIds plan))) = {}"
  proof (rule ccontr)
    assume "\<not> ?thesis"
    then obtain st a where "st \<in> set (searchSteps (generateStepIds plan))"
      "a \<in> set (analysisSteps (generateStepIds plan))" "step_id st = analysis_id a" by auto
    then obtain r1 r2 where "step_id st = ''search-'' @ r1" "step_id st = ''analysis-'' @ r2"
      using searchSteps_prefix analysisSteps_prefix by metis
    then show False by simp
  qed
  have ga: "set (gapLoopIds n qs) \<inter>
            set (map analysis_id (analysisSteps (generateStepIds plan))) = {}"
  proof (rule ccontr)
    assume "\<not> ?thesis"
    then obtain x a where "x \<in> set (gapLoopIds n qs)"
      "a \<in> set (analysisSteps (generateStepIds plan))" "x = analysis_id a" by auto
    then obtain r1 r2 where "x = ''gap-search-'' @ r1" "x = ''analysis-'' @ r2"
      using gapLoopIds_prefix analysisSteps_prefix by metis
    then show False by simp
  qed
  from sg sa ga generated_searchSteps_distinct [of plan] gapLoopIds_distinct [of n qs]
    analysisSteps_distinct [of plan]
  show ?thesis by (simp only: distinct_append set_append) blast
qed

subsection \<open>The deepening pass\<close>

lemma deepeningPass_dataStream:
  "dataStream (finalState (deepeningPass env depth T g s)) = dataStream s @ [synthesisRunning] \<or>
   (\<exists>f. dataStream (finalState (deepeningPass env depth T g s)) =
          dataStream s @ [synthesisRunning, synthesisCompleted f T depth])"
  by (auto simp: deepeningPass_def Let_def split: option.split)

lemma deepeningPass_tail:
  "\<exists>zs. dataStream (finalState (deepeningPass env depth T g s)) = dataStream s @ zs \<and>
        list_all (tailAnnotation c T depth) zs"
proof -
  have r: "list_all (tailAnnotation c T depth) [synthesisRunning]"
    by (simp add: tailAnnotation_def)
  have c: "\<And>f. list_all (tailAnnotation c T depth) [synthesisRunning, synthesisCompleted f T depth]"
    by (auto simp: tailAnnotation_def)
  from deepeningPass_dataStream [of env depth T g s] show ?thesis
  proof
    assume "dataStream (finalState (deepeningPass env depth T g s)) = dataStream s @ [synthesisRunning]"
    with r show ?thesis by blast
  next
    assume "\<exists>f. dataStream (finalState (deepeningPass env depth T g s)) =
          dataStream s @ [synthesisRunning, synthesisCompleted f T depth]"
    then obtain f where "dataStream (finalState (deepeningPass env depth T g s)) =
          dataStream s @ [synthesisRunning, synthesisCompleted f T depth]" by blast
    with c [of f] show ?thesis by blast
  qed
qed

lemma deepeningPass_completedSteps [simp]:
  "completedSteps (finalState (deepeningPass env depth T g s)) = completedSteps s"
  by (simp add: deepeningPass_def Let_def split: option.split)

lemma deepeningPass_stepIds:
  "map callStepId (adapterCalls (finalState (deepeningPass env depth T g s))) =
     map callStepId (adapterCalls s) @
     gapLoopIds (searchIndex s) (additionalQueriesOf (knowledge_gaps g))"
  by (simp add: deepeningPass_def Let_def gapSearchLoop_stepIds split: option.split)

lemma deepeningPass_searchResults:
  "searchResults (finalState (deepeningPass env depth T g s)) =
     searchResults (gapSearchLoop env depth (additionalQueriesOf (knowledge_gaps g)) s)"
  by (simp add: deepeningPass_def Let_def split: option.split)

subsection \<open>From the gap analysis to the return\<close>

lemma gapPhase_dataStream:
  "\<exists>ys. dataStream (finalState (gapPhase env depth plan ids T s)) = dataStream s @ ys \<and>
        list_all (tailAnnotation (completedSteps s) T depth) ys"
proof (cases "generateObject gapAnalysisSchema
                (llmGapAnalysis env (searchResults s) (analysisSteps ids))")
  case None
  then have "dataStream (finalState (gapPhase env depth plan ids T s)) = dataStream s @ [gapRunning]"
    by (simp add: gapPhase_def Let_def)
  moreover have "list_all (tailAnnotation (completedSteps s) T depth) [gapRunning]"
    by (simp add: tailAnnotation_def)
  ultimately show ?thesis by blast
next
  case (Some g)
  let ?s1 = "writeMessageAnnotation gapRunning s"
  let ?s2 = "writeMessageAnnotation (gapCompleted g (completedSteps ?s1) T depth) ?s1"
  have t2: "list_all (tailAnnotation (completedSteps s) T depth)
              [gapRunning, gapCompleted g (completedSteps s) T depth]"
    by (auto simp: tailAnnotation_def)
  have tf: "tailAnnotation (completedSteps s) T depth (finalProgress T depth)"
    by (simp add: tailAnnotation_def)
  show ?thesis
  proof (cases "depth = Advanced \<and> length (knowledge_gaps g) > 0")
    case False
    with Some have "dataStream (finalState (gapPhase env depth plan ids T s)) =
        dataStream s @ [gapRunning, gapCompleted g (completedSteps s) T depth, finalProgress T depth]"
      by (auto simp add: gapPhase_def Let_def)
    moreover have "list_all (tailAnnotation (completedSteps s) T depth)
        [gapRunning, gapCompleted g (completedSteps s) T depth, finalProgress T depth]"
      using t2 tf by simp
    ultimately show ?thesis by blast
  next
    case True
    show ?thesis
    proof (cases "deepeningPass env depth T g ?s2")
      case (Threw s3)
      with Some True have e: "finalState (gapPhase env depth plan ids T s) = s3"
        by (simp add: gapPhase_def Let_def)
      from Threw obtain zs where zs: "dataStream s3 = dataStream ?s2 @ zs"
        "list_all (tailAnnotation (completedSteps s) T depth) zs"
        using deepeningPass_tail [of env depth T g ?s2 "completedSteps s"] by auto
      have "dataStream (finalState (gapPhase env depth plan ids T s)) =
          dataStream s @ ([gapRunning, gapCompleted g (completedSteps s) T depth] @ zs)"
        using e zs(1) by simp
      moreover have "list_all (tailAnnotation (completedSteps s) T depth)
          ([gapRunning, gapCompleted g (completedSteps s) T depth] @ zs)"
        using t2 zs(2) by simp
      ultimately show ?thesis by blast
    next
      case (Returned f s3)
      with Some True have e: "finalState (gapPhase env depth plan ids T s) =
          writeMessageAnnotation (finalProgress T depth) s3"
        by (simp add: gapPhase_def Let_def)
      from Returned obtain zs where zs: "dataStream s3 = dataStream ?s2 @ zs"
        "list_all (tailAnnotation (completedSteps s) T depth) zs"
        using deepeningPass_tail [of env depth T g ?s2 "completedSteps s"] by auto
      have "dataStream (finalState (gapPhase env depth plan ids T s)) =
          dataStream s @ ([gapRunning, gapCompleted g (completedSteps s) T depth] @ zs @
            [finalProgress T depth])"
        using e zs(1) by simp
      moreover have "list_all (tailAnnotation (completedSteps s) T depth)
          ([gapRunning, gapCompleted g (completedSteps s) T depth] @ zs @ [finalProgress T depth])"
        using t2 tf zs(2) by simp
      ultimately show ?thesis by blast
    qed
  qed
qed

lemma gapPhase_stepIds:
  "\<exists>qs. map callStepId (adapterCalls (finalState (gapPhase env depth plan ids T s))) =
          map callStepId (adapterCalls s) @ gapLoopIds (searchIndex s) qs"
proof (cases "generateObject gapAnalysisSchema
                (llmGapAnalysis env (searchResults s) (analysisSteps ids))")
  case None
  then have "map callStepId (adapterCalls (finalState (gapPhase env depth plan ids T s))) =
      map callStepId (adapterCalls s) @ gapLoopIds (searchIndex s) []"
    by (simp add: gapPhase_def Let_def)
  then show ?thesis by blast
next
  case (Some g)
  let ?s1 = "writeMessageAnnotation gapRunning s"
  let ?s2 = "writeMessageAnnotation (gapCompleted g (completedSteps ?s1) T depth) ?s1"
  show ?thesis
  proof (cases "depth = Advanced \<and> length (knowledge_gaps g) > 0")
    case False
    with Some have "map callStepId (adapterCalls (finalState (gapPhase env depth plan ids T s))) =
        map callStepId (adapterCalls s) @ gapLoopIds (searchIndex s) []"
      by (auto simp add: gapPhase_def Let_def)
    then show ?thesis by blast
  next
    case True
    have "adapterCalls (finalState (gapPhase env depth plan ids T s)) =
          adapterCalls (finalState (deepeningPass env depth T g ?s2))"
      using Some True by (simp add: gapPhase_def Let_def split: outcome.split)
    then have "map callStepId (adapterCalls (finalState (gapPhase env depth plan ids T s))) =
        map callStepId (adapterCalls s) @
        gapLoopIds (searchIndex s) (additionalQueriesOf (knowledge_gaps g))"
      by (simp add: deepeningPass_stepIds)
    then show ?thesis by blast
  qed
qed

lemma researchPhase_dataStream:
  assumes "completedSteps s = 0"
  shows "\<exists>ys. dataStream (finalState (researchPhase env depth plan s)) =
           dataStream s @
           planCompleted (generateStepIds plan) plan (totalStepsOf (generateStepIds plan)) # ys \<and>
           list_all (laterAnnotation env depth plan) ys"
proof -
  let ?ids = "generateStepIds plan"
  let ?T = "totalStepsOf ?ids"
  let ?s1 = "writeMessageAnnotation (planCompleted ?ids plan ?T) s"
  let ?s2 = "searchLoop env depth (searchSteps ?ids) ?s1"
  let ?c = "int (length (filter (stepSucceeds env depth) (searchSteps ?ids)))"
  have c2: "completedSteps ?s2 = ?c" using assms by (simp add: searchLoop_completedSteps)
  have d2: "dataStream ?s2 = dataStream s @ [planCompleted ?ids plan ?T]" by simp
  obtain as where as: "dataStream (finalState (analysisLoop env (analysisSteps ?ids) ?s2)) =
      dataStream ?s2 @ as" "list_all (analysisAnnotation (analysisSteps ?ids)) as"
    using analysisLoop_dataStream by blast
  from as(2) have las: "list_all (laterAnnotation env depth plan) as"
    by (simp add: list_all_iff laterAnnotation_def)
  show ?thesis
  proof (cases "analysisLoop env (analysisSteps ?ids) ?s2")
    case (Threw s3)
    then have "finalState (researchPhase env depth plan s) = s3"
      by (simp add: researchPhase_def Let_def)
    moreover from Threw as(1) have "dataStream s3 = dataStream ?s2 @ as" by simp
    ultimately have "dataStream (finalState (researchPhase env depth plan s)) =
        dataStream s @ planCompleted ?ids plan ?T # as" using d2 by simp
    with las show ?thesis by blast
  next
    case (Returned u s3)
    then have e: "researchPhase env depth plan s = gapPhase env depth plan ?ids ?T s3"
      by (simp add: researchPhase_def Let_def)
    from Returned as(1) have d3: "dataStream s3 = dataStream ?s2 @ as" by simp
    from Returned have "completedSteps s3 = completedSteps ?s2"
      using analysisLoop_frame [of env "analysisSteps ?ids" ?s2] by simp
    with c2 have c3: "completedSteps s3 = ?c" by simp
    obtain ys where ys: "dataStream (finalState (gapPhase env depth plan ?ids ?T s3)) =
        dataStream s3 @ ys" "list_all (tailAnnotation (completedSteps s3) ?T depth) ys"
      using gapPhase_dataStream by blast
    from ys(2) c3 have lys: "list_all (laterAnnotation env depth plan) ys"
      by (simp add: list_all_iff laterAnnotation_def)
    have "dataStream (finalState (researchPhase env depth plan s)) =
        dataStream s @ planCompleted ?ids plan ?T # (as @ ys)"
      using e ys(1) d3 d2 by simp
    moreover have "list_all (laterAnnotation env depth plan) (as @ ys)" using las lys by simp
    ultimately show ?thesis by blast
  qed
qed

lemma researchPhase_stepIds:
  "\<exists>qs. map callStepId (adapterCalls (finalState (researchPhase env depth plan s))) =
          map callStepId (adapterCalls s) @ map step_id (searchSteps (generateStepIds plan)) @
          gapLoopIds (searchIndex s + int (length (searchSteps (generateStepIds plan)))) qs"
proof -
  let ?ids = "generateStepIds plan"
  let ?T = "totalStepsOf ?ids"
  let ?s1 = "writeMessageAnnotation (planCompleted ?ids plan ?T) s"
  let ?s2 = "searchLoop env depth (searchSteps ?ids) ?s1"
  have ty: "list_all (\<lambda>st. step_type st \<noteq> AllSources) (searchSteps ?ids)"
    using generated_step_type by (auto simp: list_all_iff)
  have a2: "map callStepId (adapterCalls ?s2) =
            map callStepId (adapterCalls s) @ map step_id (searchSteps ?ids)"
    using stepCalls_ids [OF ty] by (simp add: searchLoop_adapterCalls)
  have i2: "searchIndex ?s2 = searchIndex s + int (length (searchSteps ?ids))"
    by (simp add: searchLoop_searchIndex)
  show ?thesis
  proof (cases "analysisLoop env (analysisSteps ?ids) ?s2")
    case (Threw s3)
    then have "finalState (researchPhase env depth plan s) = s3"
      by (simp add: researchPhase_def Let_def)
    moreover from Threw have "adapterCalls s3 = adapterCalls ?s2"
      using analysisLoop_frame [of env "analysisSteps ?ids" ?s2] by simp
    ultimately have "map callStepId (adapterCalls (finalState (researchPhase env depth plan s))) =
        map callStepId (adapterCalls s) @ map step_id (searchSteps ?ids) @
        gapLoopIds (searchIndex s + int (length (searchSteps ?ids))) []"
      using a2 by simp
    then show ?thesis by blast
  next
    case (Returned u s3)
    then have e: "researchPhase env depth plan s = gapPhase env depth plan ?ids ?T s3"
      by (simp add: researchPhase_def Let_def)
    from Returned have f3: "adapterCalls s3 = adapterCalls ?s2" "searchIndex s3 = searchIndex ?s2"
      using analysisLoop_frame [of env "analysisSteps ?ids" ?s2] by simp_all
    obtain qs where "map callStepId (adapterCalls (finalState (gapPhase env depth plan ?ids ?T s3))) =
        map callStepId (adapterCalls s3) @ gapLoopIds (searchIndex s3) qs"
      using gapPhase_stepIds by blast
    then have "map callStepId (adapterCalls (finalState (researchPhase env depth plan s))) =
        map callStepId (adapterCalls s) @ map step_id (searchSteps ?ids) @
        gapLoopIds (searchIndex s + int (length (searchSteps ?ids))) qs"
      using e f3 a2 i2 by simp
    then show ?thesis by blast
  qed
qed

subsection \<open>The whole run\<close>

lemma execute_no_plan:
  "generateObject researchPlanSchema (llmPlan env tp) = None \<Longrightarrow>
   execute env tp depth = Threw (writeMessageAnnotation planRunning initialState)"
  by (simp add: execute_def Let_def)

lemma execute_plan:
  "generateObject researchPlanSchema (llmPlan env tp) = Some plan \<Longrightarrow>
   execute env tp depth =
     researchPhase env depth plan (writeMessageAnnotation planRunning initialState)"
  by (simp add: execute_def Let_def)

lemma execute_dataStream:
  assumes "generateObject researchPlanSchema (llmPlan env tp) = Some plan"
  shows "\<exists>ys. dataStream (finalState (execute env tp depth)) =
           planRunning #
           planCompleted (generateStepIds plan) plan (totalStepsOf (generateStepIds plan)) # ys \<and>
           list_all (laterAnnotation env depth plan) ys"
proof -
  let ?s0 = "writeMessageAnnotation planRunning initialState"
  have "completedSteps ?s0 = 0" by (simp add: initialState_def)
  then obtain ys where "dataStream (finalState (researchPhase env depth plan ?s0)) =
      dataStream ?s0 @
      planCompleted (generateStepIds plan) plan (totalStepsOf (generateStepIds plan)) # ys"
    "list_all (laterAnnotation env depth plan) ys"
    using researchPhase_dataStream by blast
  then show ?thesis using execute_plan [OF assms] by (simp add: initialState_def)
qed

lemma execute_stepIds:
  assumes "generateObject researchPlanSchema (llmPlan env tp) = Some plan"
  shows "\<exists>qs. map callStepId (adapterCalls (finalState (execute env tp depth))) =
           map step_id (searchSteps (generateStepIds plan)) @
           gapLoopIds (int (length (searchSteps (generateStepIds plan)))) qs"
proof -
  let ?s0 = "writeMessageAnnotation planRunning initialState"
  obtain qs where "map callStepId (adapterCalls (finalState (researchPhase env depth plan ?s0))) =
      map callStepId (adapterCalls ?s0) @ map step_id (searchSteps (generateStepIds plan)) @
      gapLoopIds (searchIndex ?s0 + int (length (searchSteps (generateStepIds plan)))) qs"
    using researchPhase_stepIds by blast
  then show ?thesis using execute_plan [OF assms] by (auto simp add: initialState_def)
qed

subsection \<open>The gap analysis of a run\<close>

lemma generated_succeeds:
  "st \<in> set (searchSteps (generateStepIds plan)) \<Longrightarrow>
   stepSucceeds env depth st = (\<not> truthy (adapterError env depth st))"
  using generated_step_type [of st plan] by (simp add: stepSucceeds_def)

lemma generated_filter_succeeds:
  "filter (stepSucceeds env depth) (searchSteps (generateStepIds plan)) =
   filter (\<lambda>st. \<not> truthy (adapterError env depth st)) (searchSteps (generateStepIds plan))"
  by (rule filter_cong) (simp_all add: generated_succeeds)

lemma analysisAnnotation_id:
  "analysisAnnotation (analysisSteps (generateStepIds plan)) a \<Longrightarrow>
   \<exists>rest. ann_id a = ''analysis-'' @ rest"
proof -
  assume "analysisAnnotation (analysisSteps (generateStepIds plan)) a"
  then obtain st where st: "st \<in> set (analysisSteps (generateStepIds plan))"
    "a = analysisRunning st \<or> (\<exists>r. a = analysisCompleted st r)"
    by (auto simp: analysisAnnotation_def)
  from st(2) have "ann_id a = analysis_id st"
    by (auto simp: analysisRunning_def analysisCompleted_def research_update_def)
  with analysisSteps_prefix [OF st(1)] show ?thesis by simp
qed

lemma gapQuery_sources:
  "map source (map (gapQuery gap) (enumerate n qs)) =
     map (\<lambda>idx. if idx = 0 then AllSources else [Web, Academic, X] ! (idx mod 3))
         [n..<n + length qs]"
proof -
  have m: "\<And>idx::nat. [Web, Academic, X, AllSources] ! (idx mod 3) = [Web, Academic, X] ! (idx mod 3)"
  proof -
    fix idx :: nat
    have "idx mod 3 < 3" by simp
    then have "idx mod 3 = 0 \<or> idx mod 3 = 1 \<or> idx mod 3 = 2" by linarith
    then show "[Web, Academic, X, AllSources] ! (idx mod 3) = [Web, Academic, X] ! (idx mod 3)"
      by (elim disjE) simp_all
  qed
  have "map source (map (gapQuery gap) (enumerate n qs)) =
        map ((\<lambda>idx. if idx = 0 then AllSources else [Web, Academic, X] ! (idx mod 3)) \<circ> fst)
            (enumerate n qs)"
    by (simp add: gapQuery_def Let_def comp_def m)
  also have "\<dots> = map (\<lambda>idx. if idx = 0 then AllSources else [Web, Academic, X] ! (idx mod 3))
                       (map fst (enumerate n qs))" by (simp only: map_map)
  also have "\<dots> = map (\<lambda>idx. if idx = 0 then AllSources else [Web, Academic, X] ! (idx mod 3))
                       [n..<n + length qs]" by (simp only: map_fst_enumerate)
  finally show ?thesis .
qed

lemma gapSearch_callTargets:
  "map callTarget (adapterCalls (gapSearch env depth q s)) =
     map callTarget (adapterCalls s) @ queryTargets q"
  by (cases "source q")
     (simp_all add: gapSearch_def gapWebSearch_def gapAcademicSearch_def gapXSearch_def Let_def
        queryTargets_def gapTypes_def callTarget_def)

lemma gapSearch_resultTargets:
  "map resultTarget (searchResults (gapSearch env depth q s)) =
     map resultTarget (searchResults s) @ queryTargets q"
  by (cases "source q")
     (simp_all add: gapSearch_def gapWebSearch_def gapAcademicSearch_def gapXSearch_def Let_def
        queryTargets_def gapTypes_def resultTarget_def gapResultQuery_def)

lemma gapSearchLoop_callTargets:
  "map callTarget (adapterCalls (gapSearchLoop env depth qs s)) =
     map callTarget (adapterCalls s) @ concat (map queryTargets qs)"
  by (induction qs arbitrary: s) (simp_all add: gapSearch_callTargets)

lemma gapSearchLoop_resultTargets:
  "map resultTarget (searchResults (gapSearchLoop env depth qs s)) =
     map resultTarget (searchResults s) @ concat (map queryTargets qs)"
  by (induction qs arbitrary: s) (simp_all add: gapSearch_resultTargets)

lemma rotation_nth: "[Web, Academic, X, AllSources] ! (idx mod 3) = [Web, Academic, X] ! (idx mod 3)"
proof -
  have "idx mod 3 < 3" by simp
  then have "idx mod 3 = 0 \<or> idx mod 3 = 1 \<or> idx mod 3 = 2" by linarith
  then show ?thesis by (elim disjE) simp_all
qed

lemma rotation_not_all: "[Web, Academic, X] ! (idx mod 3) \<noteq> AllSources"
proof -
  have "idx mod 3 < 3" by simp
  then have "idx mod 3 = 0 \<or> idx mod 3 = 1 \<or> idx mod 3 = 2" by linarith
  then show ?thesis by (elim disjE) simp_all
qed

lemma gapQuery_targets: "queryTargets (gapQuery gap iq) = rotationOf iq"
  by (simp add: queryTargets_def gapQuery_def gapTypes_def rotationOf_def Let_def
        rotation_nth rotation_not_all)

lemma additionalQueries_targets:
  "concat (map queryTargets (additionalQueriesOf gaps)) = rotationFanOut gaps"
proof (induction gaps)
  case Nil
  then show ?case by (simp add: additionalQueriesOf_def rotationFanOut_def)
next
  case (Cons gap gaps)
  have "queryTargets \<circ> gapQuery gap = rotationOf"
    by (rule ext) (simp add: gapQuery_targets)
  with Cons show ?case by (simp add: additionalQueriesOf_def rotationFanOut_def)
qed

lemma gapLoopIds_batch: "gapBatchIds i qs (gapLoopIds i qs)"
  by (induction qs arbitrary: i) (auto simp: gapIds_def gapAdvance_def)

lemma deepeningPass_adapterCalls:
  "adapterCalls (finalState (deepeningPass env depth T g s)) =
     adapterCalls (gapSearchLoop env depth (additionalQueriesOf (knowledge_gaps g)) s)"
  by (simp add: deepeningPass_def Let_def split: option.split)

lemma deepeningPass_no_gaps:
  "\<exists>zs. dataStream (finalState (deepeningPass env depth T g s)) = dataStream s @ zs \<and>
        list_all (\<lambda>a. ann_gaps a = None) zs"
proof -
  have r: "ann_gaps synthesisRunning = None"
    by (simp add: synthesisRunning_def research_update_def)
  have c: "\<And>f. ann_gaps (synthesisCompleted f T depth) = None"
    by (simp add: synthesisCompleted_def research_update_def)
  from deepeningPass_dataStream [of env depth T g s] show ?thesis
  proof
    assume "dataStream (finalState (deepeningPass env depth T g s)) = dataStream s @ [synthesisRunning]"
    moreover have "list_all (\<lambda>a. ann_gaps a = None) [synthesisRunning]" using r by simp
    ultimately show ?thesis by blast
  next
    assume "\<exists>f. dataStream (finalState (deepeningPass env depth T g s)) =
          dataStream s @ [synthesisRunning, synthesisCompleted f T depth]"
    then obtain f where "dataStream (finalState (deepeningPass env depth T g s)) =
          dataStream s @ [synthesisRunning, synthesisCompleted f T depth]" by blast
    moreover have "list_all (\<lambda>a. ann_gaps a = None)
         [synthesisRunning, synthesisCompleted f T depth]" using r c by simp
    ultimately show ?thesis by blast
  qed
qed

lemma gapPhase_no_analysis:
  assumes "generateObject gapAnalysisSchema
             (llmGapAnalysis env (searchResults s) (analysisSteps ids)) = None"
  shows "dataStream (finalState (gapPhase env depth plan ids T s)) = dataStream s @ [gapRunning]"
  using assms by (simp add: gapPhase_def Let_def)

text \<open>The run from a successful gap analysis on: the annotation it writes for it, and the
  gap loop whose adapter calls and results the final state holds.\<close>

lemma gapPhase_with_analysis:
  assumes "generateObject gapAnalysisSchema
             (llmGapAnalysis env (searchResults s) (analysisSteps ids)) = Some g"
  shows "\<exists>zs s'.
           dataStream (finalState (gapPhase env depth plan ids T s)) =
             dataStream s @ gapRunning # gapCompleted g (completedSteps s) T depth # zs \<and>
           list_all (\<lambda>a. ann_gaps a = None) zs \<and>
           adapterCalls s' = adapterCalls s \<and> searchResults s' = searchResults s \<and>
           searchIndex s' = searchIndex s \<and>
           adapterCalls (finalState (gapPhase env depth plan ids T s)) =
             adapterCalls (gapSearchLoop env depth
                (if depth = Advanced then additionalQueriesOf (knowledge_gaps g) else []) s') \<and>
           searchResults (finalState (gapPhase env depth plan ids T s)) =
             searchResults (gapSearchLoop env depth
                (if depth = Advanced then additionalQueriesOf (knowledge_gaps g) else []) s')"
proof -
  let ?F = "finalState (gapPhase env depth plan ids T s)"
  let ?s1 = "writeMessageAnnotation gapRunning s"
  let ?s2 = "writeMessageAnnotation (gapCompleted g (completedSteps ?s1) T depth) ?s1"
  let ?Q = "if depth = Advanced then additionalQueriesOf (knowledge_gaps g) else []"
  have s2: "adapterCalls ?s2 = adapterCalls s" "searchResults ?s2 = searchResults s"
    "searchIndex ?s2 = searchIndex s"
    "dataStream ?s2 = dataStream s @ [gapRunning, gapCompleted g (completedSteps s) T depth]"
    by simp_all
  have fp: "ann_gaps (finalProgress T depth) = None"
    by (simp add: finalProgress_def research_update_def)
  show ?thesis
  proof (cases "depth = Advanced \<and> length (knowledge_gaps g) > 0")
    case False
    with assms have F: "?F = writeMessageAnnotation (finalProgress T depth) ?s2"
      by (auto simp add: gapPhase_def Let_def)
    from False have Q: "gapSearchLoop env depth ?Q ?s2 = ?s2"
      by (auto simp add: additionalQueriesOf_def)
    have "dataStream ?F =
        dataStream s @ gapRunning # gapCompleted g (completedSteps s) T depth #
          [finalProgress T depth]" using F by simp
    moreover have "list_all (\<lambda>a. ann_gaps a = None) [finalProgress T depth]" using fp by simp
    moreover have "adapterCalls ?F = adapterCalls (gapSearchLoop env depth ?Q ?s2)"
      "searchResults ?F = searchResults (gapSearchLoop env depth ?Q ?s2)"
      using F Q by simp_all
    ultimately show ?thesis using s2(1-3) by blast
  next
    case True
    then have Q: "?Q = additionalQueriesOf (knowledge_gaps g)" by simp
    let ?D = "deepeningPass env depth T g ?s2"
    obtain zs where zs: "dataStream (finalState ?D) = dataStream ?s2 @ zs"
      "list_all (\<lambda>a. ann_gaps a = None) zs"
      using deepeningPass_no_gaps by blast
    have calls: "adapterCalls (finalState ?D) = adapterCalls (gapSearchLoop env depth ?Q ?s2)"
      by (simp only: deepeningPass_adapterCalls Q)
    have res: "searchResults (finalState ?D) = searchResults (gapSearchLoop env depth ?Q ?s2)"
      by (simp only: deepeningPass_searchResults Q)
    show ?thesis
    proof (cases ?D)
      case (Threw s3)
      with assms True have "?F = s3" by (simp add: gapPhase_def Let_def)
      with Threw have F: "?F = finalState ?D" by simp
      have "dataStream ?F =
          dataStream s @ gapRunning # gapCompleted g (completedSteps s) T depth # zs"
        using F zs(1) by simp
      moreover have "adapterCalls ?F = adapterCalls (gapSearchLoop env depth ?Q ?s2)"
        "searchResults ?F = searchResults (gapSearchLoop env depth ?Q ?s2)"
        using F calls res by simp_all
      ultimately show ?thesis using zs(2) s2(1-3) by blast
    next
      case (Returned f s3)
      with assms True have "?F = writeMessageAnnotation (finalProgress T depth) s3"
        by (simp add: gapPhase_def Let_def)
      with Returned have F: "?F = writeMessageAnnotation (finalProgress T depth) (finalState ?D)"
        by simp
      have "dataStream ?F =
          dataStream s @ gapRunning # gapCompleted g (completedSteps s) T depth #
            (zs @ [finalProgress T depth])"
        using F zs(1) by simp
      moreover have "list_all (\<lambda>a. ann_gaps a = None) (zs @ [finalProgress T depth])"
        using zs(2) fp by simp
      moreover have "adapterCalls ?F = adapterCalls (gapSearchLoop env depth ?Q ?s2)"
        "searchResults ?F = searchResults (gapSearchLoop env depth ?Q ?s2)"
        using F calls res by simp_all
      ultimately show ?thesis using s2(1-3) by blast
    qed
  qed
qed

lemma analysisAnnotation_no_gaps: "analysisAnnotation steps a \<Longrightarrow> ann_gaps a = None"
  unfolding analysisAnnotation_def
  by (auto simp: analysisRunning_def analysisCompleted_def research_update_def)

text \<open>If a run has written an annotation with a \<^verbatim>\<open>gaps\<close> field, then the gap analysis was
  generated, the annotation is the gap-analysis completed annotation built from it, and the
  adapter calls and results of the final state are those of the gap loop started after the
  search loop.\<close>

lemma execute_gap_analysis:
  assumes plan: "generateObject researchPlanSchema (llmPlan env tp) = Some plan"
    and a: "a \<in> set (dataStream (finalState (execute env tp depth)))"
    and gaps: "ann_gaps a \<noteq> None"
  shows "\<exists>g s'.
           generateObject gapAnalysisSchema
             (llmGapAnalysis env
                (map (stepResult env depth)
                   (filter (stepSucceeds env depth) (searchSteps (generateStepIds plan))))
                (analysisSteps (generateStepIds plan))) = Some g \<and>
           a = gapCompleted g
                 (int (length (filter (stepSucceeds env depth)
                                 (searchSteps (generateStepIds plan)))))
                 (totalStepsOf (generateStepIds plan)) depth \<and>
           afterSearch env depth plan s' \<and>
           adapterCalls (finalState (execute env tp depth)) =
             adapterCalls (gapSearchLoop env depth
                (if depth = Advanced then additionalQueriesOf (knowledge_gaps g) else []) s') \<and>
           searchResults (finalState (execute env tp depth)) =
             searchResults (gapSearchLoop env depth
                (if depth = Advanced then additionalQueriesOf (knowledge_gaps g) else []) s')"
proof -
  let ?ids = "generateStepIds plan"
  let ?T = "totalStepsOf ?ids"
  let ?steps = "searchSteps ?ids"
  let ?s0 = "writeMessageAnnotation planRunning initialState"
  let ?s1 = "writeMessageAnnotation (planCompleted ?ids plan ?T) ?s0"
  let ?s2 = "searchLoop env depth ?steps ?s1"
  let ?A = "analysisLoop env (analysisSteps ?ids) ?s2"
  let ?R0 = "map (stepResult env depth) (filter (stepSucceeds env depth) ?steps)"
  let ?c0 = "int (length (filter (stepSucceeds env depth) ?steps))"
  have ex: "execute env tp depth = researchPhase env depth plan ?s0" by (rule execute_plan [OF plan])
  have s2: "adapterCalls ?s2 = concat (map (stepCalls depth) ?steps)" "searchResults ?s2 = ?R0"
    "searchIndex ?s2 = int (length ?steps)" "completedSteps ?s2 = ?c0"
    "dataStream ?s2 = [planRunning, planCompleted ?ids plan ?T]"
    by (simp_all add: searchLoop_adapterCalls searchLoop_searchResults searchLoop_searchIndex
          searchLoop_completedSteps initialState_def)
  have pre: "list_all (\<lambda>a. ann_gaps a = None) (dataStream ?s2)"
    by (simp add: initialState_def planRunning_def planCompleted_def research_update_def)
  obtain as where as: "dataStream (finalState ?A) = dataStream ?s2 @ as"
    "list_all (analysisAnnotation (analysisSteps ?ids)) as"
    using analysisLoop_dataStream by blast
  from as(2) have asn: "list_all (\<lambda>a. ann_gaps a = None) as"
    using analysisAnnotation_no_gaps by (auto simp: list_all_iff)
  have fr: "completedSteps (finalState ?A) = ?c0" "searchResults (finalState ?A) = ?R0"
    "searchIndex (finalState ?A) = int (length ?steps)"
    "adapterCalls (finalState ?A) = concat (map (stepCalls depth) ?steps)"
    using analysisLoop_frame [of env "analysisSteps ?ids" ?s2] s2 by simp_all
  show ?thesis
  proof (cases ?A)
    case (Threw s3)
    then have "finalState (execute env tp depth) = s3"
      by (simp add: ex researchPhase_def Let_def)
    with Threw as(1) have "dataStream (finalState (execute env tp depth)) = dataStream ?s2 @ as"
      by simp
    with a pre asn have "ann_gaps a = None" by (auto simp: list_all_iff)
    with gaps show ?thesis by simp
  next
    case (Returned u s3)
    then have e: "execute env tp depth = gapPhase env depth plan ?ids ?T s3"
      by (simp add: ex researchPhase_def Let_def)
    from Returned as(1) fr have s3: "dataStream s3 = dataStream ?s2 @ as"
      "completedSteps s3 = ?c0" "searchResults s3 = ?R0" "searchIndex s3 = int (length ?steps)"
      "adapterCalls s3 = concat (map (stepCalls depth) ?steps)" by simp_all
    have pre3: "list_all (\<lambda>a. ann_gaps a = None) (dataStream s3)"
      using s3(1) pre asn by simp
    show ?thesis
    proof (cases "generateObject gapAnalysisSchema
                    (llmGapAnalysis env (searchResults s3) (analysisSteps ?ids))")
      case None
      then have "dataStream (finalState (execute env tp depth)) = dataStream s3 @ [gapRunning]"
        using e by (simp add: gapPhase_no_analysis)
      moreover have "ann_gaps gapRunning = None" by (simp add: gapRunning_def research_update_def)
      ultimately have "ann_gaps a = None" using a pre3 by (auto simp: list_all_iff)
      with gaps show ?thesis by simp
    next
      case (Some g)
      let ?Q = "if depth = Advanced then additionalQueriesOf (knowledge_gaps g) else []"
      obtain zs s' where z: "dataStream (finalState (gapPhase env depth plan ?ids ?T s3)) =
             dataStream s3 @ gapRunning # gapCompleted g (completedSteps s3) ?T depth # zs"
        "list_all (\<lambda>a. ann_gaps a = None) zs"
        "adapterCalls s' = adapterCalls s3" "searchResults s' = searchResults s3"
        "searchIndex s' = searchIndex s3"
        "adapterCalls (finalState (gapPhase env depth plan ?ids ?T s3)) =
             adapterCalls (gapSearchLoop env depth ?Q s')"
        "searchResults (finalState (gapPhase env depth plan ?ids ?T s3)) =
             searchResults (gapSearchLoop env depth ?Q s')"
        using gapPhase_with_analysis [OF Some, of depth plan ?T] by blast
      have gr: "ann_gaps gapRunning = None" by (simp add: gapRunning_def research_update_def)
      from a e z(1) have "a \<in> set (dataStream s3) \<or> a = gapRunning \<or>
          a = gapCompleted g (completedSteps s3) ?T depth \<or> a \<in> set zs" by auto
      with gaps pre3 z(2) gr have "a = gapCompleted g (completedSteps s3) ?T depth"
        by (auto simp: list_all_iff)
      then have a': "a = gapCompleted g ?c0 ?T depth" by (simp only: s3(2))
      have g': "generateObject gapAnalysisSchema
                  (llmGapAnalysis env ?R0 (analysisSteps ?ids)) = Some g"
        using Some by (simp only: s3(3))
      have af: "afterSearch env depth plan s'"
        using z(3-5) s3(3-5) by (simp add: afterSearch_def)
      from g' a' af z(6,7) e show ?thesis by auto
    qed
  qed
qed

lemma gap_completed_has_gaps:
  assumes plan: "generateObject researchPlanSchema (llmPlan env tp) = Some plan"
    and a: "a \<in> set (dataStream (finalState (execute env tp depth)))"
    and i: "ann_id a = ''gap-analysis''" "ann_status a = Completed"
  shows "ann_gaps a \<noteq> None"
proof -
  let ?ids = "generateStepIds plan"
  obtain ys where ys: "dataStream (finalState (execute env tp depth)) =
      planRunning # planCompleted ?ids plan (totalStepsOf ?ids) # ys"
    "list_all (laterAnnotation env depth plan) ys"
    using execute_dataStream [OF plan] by blast
  from a ys(1) have "a = planRunning \<or> a = planCompleted ?ids plan (totalStepsOf ?ids) \<or>
      a \<in> set ys" by auto
  then show ?thesis
  proof (elim disjE)
    assume "a = planRunning"
    with i show ?thesis by (simp add: planRunning_def research_update_def)
  next
    assume "a = planCompleted ?ids plan (totalStepsOf ?ids)"
    with i show ?thesis by (simp add: planCompleted_def research_update_def generateStepIds_def)
  next
    assume "a \<in> set ys"
    with ys(2) have "laterAnnotation env depth plan a" by (simp add: list_all_iff)
    then have "analysisAnnotation (analysisSteps ?ids) a \<or>
        tailAnnotation (int (length (filter (stepSucceeds env depth) (searchSteps ?ids))))
          (totalStepsOf ?ids) depth a" by (simp add: laterAnnotation_def)
    then show ?thesis
    proof
      assume "analysisAnnotation (analysisSteps ?ids) a"
      then obtain rest where "ann_id a = ''analysis-'' @ rest"
        using analysisAnnotation_id by blast
      with i show ?thesis by simp
    next
      assume "tailAnnotation (int (length (filter (stepSucceeds env depth) (searchSteps ?ids))))
          (totalStepsOf ?ids) depth a"
      with i show ?thesis unfolding tailAnnotation_def
        by (auto simp: gapRunning_def gapCompleted_def synthesisRunning_def
              synthesisCompleted_def finalProgress_def research_update_def)
    qed
  qed
qed

lemma stepCalls_target:
  "step_type step \<noteq> AllSources \<Longrightarrow>
   map callTarget (stepCalls depth step) = [(step_type step, query (step_query step))]"
  by (cases "step_type step")
     (simp_all add: stepCalls_def webArgs_def academicArgs_def xArgs_def callTarget_def)

lemma stepCalls_targets:
  "list_all (\<lambda>st. step_type st \<noteq> AllSources) steps \<Longrightarrow>
   map callTarget (concat (map (stepCalls depth) steps)) =
     map (\<lambda>st. (step_type st, query (step_query st))) steps"
  by (induction steps) (simp_all add: stepCalls_target)

lemma stepResult_targets:
  "map resultTarget (map (stepResult env depth) steps) =
     map (\<lambda>st. (step_type st, query (step_query st))) steps"
  by (simp add: resultTarget_def stepResult_def comp_def)

lemma generated_types: "list_all (\<lambda>st. step_type st \<noteq> AllSources) (searchSteps (generateStepIds plan))"
  using generated_step_type by (auto simp: list_all_iff)

lemma rotationOf_three:
  assumes "length qs = 3"
  shows "length (concat (map rotationOf (enumerate 0 qs))) = 5"
proof -
  from assms obtain a b c where "qs = [a, b, c]"
    by (auto simp: length_Suc_conv numeral_3_eq_3)
  then show ?thesis by (simp add: rotationOf_def)
qed

lemma rotationFanOut_two_by_three:
  assumes "length gaps = 2" "list_all (\<lambda>gap. length (additional_queries gap) = 3) gaps"
  shows "length (rotationFanOut gaps) = 10"
proof -
  from assms(1) obtain g1 g2 where g: "gaps = [g1, g2]"
    by (auto simp: length_Suc_conv numeral_2_eq_2)
  with assms(2) have "length (additional_queries g1) = 3" "length (additional_queries g2) = 3"
    by simp_all
  then show ?thesis using rotationOf_three by (simp add: rotationFanOut_def g)
qed

lemma additionalQueries_sources:
  "map source (additionalQueriesOf gaps) =
     concat (map (\<lambda>gap. map (\<lambda>idx. if idx = 0 then AllSources
                                     else [Web, Academic, X] ! (idx mod 3))
                           [0..<length (additional_queries gap)]) gaps)"
proof (induction gaps)
  case Nil
  then show ?case by (simp add: additionalQueriesOf_def)
next
  case (Cons gap gaps)
  have "map source (map (gapQuery gap) (enumerate 0 (additional_queries gap))) =
        map (\<lambda>idx. if idx = 0 then AllSources else [Web, Academic, X] ! (idx mod 3))
            [0..<length (additional_queries gap)]"
    using gapQuery_sources [of gap 0 "additional_queries gap"] by simp
  with Cons show ?case by (simp add: additionalQueriesOf_def)
qed

section \<open>Properties of the orchestrator\<close>

subsection \<open>The plan-completion annotation\<close>

lemma later_not_plan:
  "laterAnnotation env depth plan a \<Longrightarrow> ann_type a \<noteq> Plan"
  unfolding laterAnnotation_def analysisAnnotation_def tailAnnotation_def
  by (auto simp: analysisRunning_def analysisCompleted_def gapRunning_def gapCompleted_def
        synthesisRunning_def synthesisCompleted_def finalProgress_def research_update_def)

lemma filter_none: "list_all (\<lambda>a. \<not> P a) ys \<Longrightarrow> filter P ys = []"
  by (induction ys) simp_all

lemma generated_step_types:
  "map step_type (searchSteps (generateStepIds plan)) =
     concat (map (\<lambda>q. if source q = AllSources then [Web, Academic, X] else [source q])
                 (search_queries plan))"
proof -
  have "\<And>n qs. map step_type (concat (map searchStepsOf (enumerate n qs))) =
        concat (map (\<lambda>q. if source q = AllSources then [Web, Academic, X] else [source q]) qs)"
  proof -
    fix n qs
    show "map step_type (concat (map searchStepsOf (enumerate n qs))) =
        concat (map (\<lambda>q. if source q = AllSources then [Web, Academic, X] else [source q]) qs)"
      by (induction qs arbitrary: n) (simp_all add: searchStepsOf_types)
  qed
  then show ?thesis by (simp add: generateStepIds_def)
qed

lemma totalStepsOf_count:
  "totalStepsOf (generateStepIds plan) =
     int (sum_list (map (\<lambda>q. if source q = AllSources then 3 else 1) (search_queries plan))) +
     int (length (required_analyses plan))"
  by (simp add: totalStepsOf_def generateStepIds_def searchSteps_length)

text \<open>
  C1. When the plan is generated, the run writes exactly one plan-completion annotation. Its
  identifier is \<^verbatim>\<open>research-plan\<close> and its \<^verbatim>\<open>totalSteps\<close> is the number of search steps plus
  the number of planned analyses, where a query with source \<^verbatim>\<open>all\<close> counts 3 (one web, one
  academic, one x step) and any other query counts 1.
\<close>

theorem plan_completed_totalSteps:
  assumes "generateObject researchPlanSchema (llmPlan env tp) = Some plan"
  shows "(\<exists>a. filter (\<lambda>a. ann_type a = Plan \<and> ann_status a = Completed)
                 (dataStream (finalState (execute env tp depth))) = [a] \<and>
              ann_id a = ''research-plan'' \<and>
              ann_totalSteps a =
                Some (int (sum_list (map (\<lambda>q. if source q = AllSources then 3 else 1)
                                         (search_queries plan))) +
                      int (length (required_analyses plan)))) \<and>
         map step_type (searchSteps (generateStepIds plan)) =
           concat (map (\<lambda>q. if source q = AllSources then [Web, Academic, X] else [source q])
                       (search_queries plan))"
proof -
  let ?a = "planCompleted (generateStepIds plan) plan (totalStepsOf (generateStepIds plan))"
  obtain ys where ys: "dataStream (finalState (execute env tp depth)) = planRunning # ?a # ys"
    "list_all (laterAnnotation env depth plan) ys"
    using execute_dataStream [OF assms] by blast
  have "list_all (\<lambda>a. \<not> (ann_type a = Plan \<and> ann_status a = Completed)) ys"
    using ys(2) later_not_plan by (auto simp: list_all_iff)
  then have "filter (\<lambda>a. ann_type a = Plan \<and> ann_status a = Completed) ys = []"
    by (rule filter_none)
  then have "filter (\<lambda>a. ann_type a = Plan \<and> ann_status a = Completed)
               (dataStream (finalState (execute env tp depth))) = [?a]"
    using ys(1) by (simp add: planRunning_def planCompleted_def research_update_def)
  moreover have "ann_id ?a = ''research-plan''"
    by (simp add: planCompleted_def research_update_def generateStepIds_def)
  moreover have "ann_totalSteps ?a =
      Some (int (sum_list (map (\<lambda>q. if source q = AllSources then 3 else 1)
                               (search_queries plan))) +
            int (length (required_analyses plan)))"
    by (simp add: planCompleted_def totalStepsOf_count)
  ultimately show ?thesis using generated_step_types by blast
qed

theorem plan_completed_totalSteps_witness:
  "generateObject researchPlanSchema (llmPlan timeoutEnv ''renewables'') = Some examplePlan \<and>
   map ann_totalSteps
     (filter (\<lambda>a. ann_type a = Plan \<and> ann_status a = Completed)
        (dataStream (finalState (execute timeoutEnv ''renewables'' Basic)))) = [Some 3]"
proof -
  have h: "generateObject researchPlanSchema (llmPlan timeoutEnv ''renewables'') = Some examplePlan"
    by code_simp
  have n: "int (sum_list (map (\<lambda>q. if source q = AllSources then 3 else 1)
                              (search_queries examplePlan))) +
           int (length (required_analyses examplePlan)) = 3"
    by code_simp
  from plan_completed_totalSteps [OF h, of Basic] n h show ?thesis by auto
qed

subsection \<open>Adapter errors in the initial pass\<close>

text \<open>
  C2. In the initial pass, a search step whose adapter reports an error (a truthy
  \<^verbatim>\<open>error\<close> field) leaves \<^verbatim>\<open>completedSteps\<close> and the SearchResult sequence as they were; a step
  whose adapter reports none appends exactly one SearchResult and adds one to
  \<^verbatim>\<open>completedSteps\<close>. Either way the loop goes on: over the steps generated from a plan, every
  step's adapter is called, in order, and the results and the counter are those of the steps
  that reported no error.
\<close>

theorem search_step_error_policy:
  "(truthy (adapterError env depth step) \<longrightarrow>
      completedSteps (searchStep env depth step s) = completedSteps s \<and>
      searchResults (searchStep env depth step s) = searchResults s) \<and>
   (step_type step \<noteq> AllSources \<and> \<not> truthy (adapterError env depth step) \<longrightarrow>
      completedSteps (searchStep env depth step s) = completedSteps s + 1 \<and>
      searchResults (searchStep env depth step s) = searchResults s @ [stepResult env depth step]) \<and>
   map callStepId (adapterCalls (searchLoop env depth (searchSteps (generateStepIds plan)) s)) =
     map callStepId (adapterCalls s) @ map step_id (searchSteps (generateStepIds plan)) \<and>
   searchResults (searchLoop env depth (searchSteps (generateStepIds plan)) s) =
     searchResults s @
     map (stepResult env depth)
       (filter (\<lambda>st. \<not> truthy (adapterError env depth st)) (searchSteps (generateStepIds plan))) \<and>
   completedSteps (searchLoop env depth (searchSteps (generateStepIds plan)) s) =
     completedSteps s +
     int (length (filter (\<lambda>st. \<not> truthy (adapterError env depth st))
                    (searchSteps (generateStepIds plan))))"
proof -
  have ty: "list_all (\<lambda>st. step_type st \<noteq> AllSources) (searchSteps (generateStepIds plan))"
    using generated_step_type by (auto simp: list_all_iff)
  have a: "truthy (adapterError env depth step) \<longrightarrow>
      completedSteps (searchStep env depth step s) = completedSteps s \<and>
      searchResults (searchStep env depth step s) = searchResults s"
    by (simp add: searchStep_completedSteps searchStep_searchResults stepSucceeds_def)
  have b: "step_type step \<noteq> AllSources \<and> \<not> truthy (adapterError env depth step) \<longrightarrow>
      completedSteps (searchStep env depth step s) = completedSteps s + 1 \<and>
      searchResults (searchStep env depth step s) = searchResults s @ [stepResult env depth step]"
    by (simp add: searchStep_completedSteps searchStep_searchResults stepSucceeds_def)
  have c: "map callStepId (adapterCalls (searchLoop env depth (searchSteps (generateStepIds plan)) s)) =
     map callStepId (adapterCalls s) @ map step_id (searchSteps (generateStepIds plan))"
    using stepCalls_ids [OF ty] by (simp add: searchLoop_adapterCalls)
  have d: "searchResults (searchLoop env depth (searchSteps (generateStepIds plan)) s) =
     searchResults s @
     map (stepResult env depth)
       (filter (\<lambda>st. \<not> truthy (adapterError env depth st)) (searchSteps (generateStepIds plan)))"
    by (simp only: searchLoop_searchResults generated_filter_succeeds)
  have e: "completedSteps (searchLoop env depth (searchSteps (generateStepIds plan)) s) =
     completedSteps s +
     int (length (filter (\<lambda>st. \<not> truthy (adapterError env depth st))
                    (searchSteps (generateStepIds plan))))"
    by (simp only: searchLoop_completedSteps generated_filter_succeeds)
  from a b c d e show ?thesis by (intro conjI)
qed

theorem search_step_error_policy_witness:
  "truthy (adapterError timeoutEnv Basic webStep0) \<and>
   completedSteps (searchStep timeoutEnv Basic webStep0 initialState) = 0 \<and>
   searchResults (searchStep timeoutEnv Basic webStep0 initialState) = [] \<and>
   step_type academicStep1 \<noteq> AllSources \<and>
   \<not> truthy (adapterError timeoutEnv Basic academicStep1) \<and>
   completedSteps (searchStep timeoutEnv Basic academicStep1 initialState) = 1 \<and>
   searchResults (searchStep timeoutEnv Basic academicStep1 initialState) =
     [stepResult timeoutEnv Basic academicStep1] \<and>
   searchSteps (generateStepIds examplePlan) = [webStep0, academicStep1] \<and>
   map callStepId
     (adapterCalls (searchLoop timeoutEnv Basic (searchSteps (generateStepIds examplePlan))
                      initialState)) = [''search-web-0'', ''search-academic-1''] \<and>
   completedSteps (searchLoop timeoutEnv Basic (searchSteps (generateStepIds examplePlan))
                     initialState) = 1"
proof -
  have f: "truthy (adapterError timeoutEnv Basic webStep0)" by code_simp
  have g: "step_type academicStep1 \<noteq> AllSources \<and>
           \<not> truthy (adapterError timeoutEnv Basic academicStep1)" by code_simp
  have i0: "completedSteps initialState = 0" "searchResults initialState = []"
    "adapterCalls initialState = []" by (simp_all add: initialState_def)
  have st: "searchSteps (generateStepIds examplePlan) = [webStep0, academicStep1]" by code_simp
  have n: "int (length (filter (\<lambda>st. \<not> truthy (adapterError timeoutEnv Basic st))
                    (searchSteps (generateStepIds examplePlan)))) = 1" by code_simp
  have ids: "map step_id (searchSteps (generateStepIds examplePlan)) =
             [''search-web-0'', ''search-academic-1'']" by code_simp
  note w = search_step_error_policy [of timeoutEnv Basic webStep0 initialState examplePlan]
  note a = search_step_error_policy [of timeoutEnv Basic academicStep1 initialState examplePlan]
  from w f have w1: "completedSteps (searchStep timeoutEnv Basic webStep0 initialState) = 0"
    "searchResults (searchStep timeoutEnv Basic webStep0 initialState) = []"
    using i0 by simp_all
  from a g have a1: "completedSteps (searchStep timeoutEnv Basic academicStep1 initialState) = 1"
    "searchResults (searchStep timeoutEnv Basic academicStep1 initialState) =
       [stepResult timeoutEnv Basic academicStep1]"
    using i0 by simp_all
  from w have l1: "map callStepId
     (adapterCalls (searchLoop timeoutEnv Basic (searchSteps (generateStepIds examplePlan))
                      initialState)) = [''search-web-0'', ''search-academic-1'']"
    using i0 ids by simp
  from w have l2: "completedSteps (searchLoop timeoutEnv Basic
      (searchSteps (generateStepIds examplePlan)) initialState) = 1"
    using i0 n by simp
  from f g w1 a1 st l1 l2 show ?thesis by (intro conjI) simp_all
qed

subsection \<open>Progress never exceeds the total\<close>

lemma succeeded_le_total:
  "int (length (filter (stepSucceeds env depth) (searchSteps (generateStepIds plan))))
     \<le> totalStepsOf (generateStepIds plan)"
proof -
  have "length (filter (stepSucceeds env depth) (searchSteps (generateStepIds plan)))
          \<le> length (searchSteps (generateStepIds plan))" by (rule length_filter_le)
  then have "int (length (filter (stepSucceeds env depth) (searchSteps (generateStepIds plan))))
          \<le> int (length (searchSteps (generateStepIds plan)))" by (simp only: of_nat_le_iff)
  moreover have "0 \<le> int (length (analysisSteps (generateStepIds plan)))" by simp
  ultimately show ?thesis unfolding totalStepsOf_def by linarith
qed

lemma analysisAnnotation_no_progress:
  "analysisAnnotation steps a \<Longrightarrow> ann_completedSteps a = None \<and> ann_totalSteps a = None"
  unfolding analysisAnnotation_def
  by (auto simp: analysisRunning_def analysisCompleted_def research_update_def)

lemma tailAnnotation_progress:
  assumes "tailAnnotation c0 T depth a" "ann_completedSteps a = Some c" "ann_totalSteps a = Some t"
  shows "(c = c0 + 1 \<or> c = t - 1 \<or> c = t) \<and> t = T + (if depth = Advanced then 2 else 1)"
  using assms unfolding tailAnnotation_def
  by (auto simp: gapRunning_def gapCompleted_def synthesisRunning_def synthesisCompleted_def
        finalProgress_def research_update_def)

text \<open>
  C4. Every annotation a run writes that carries both \<^verbatim>\<open>completedSteps\<close> and \<^verbatim>\<open>totalSteps\<close>
  (gap-analysis completed, final-synthesis completed, the final progress annotation) reports
  \<^verbatim>\<open>completedSteps\<close> at most \<^verbatim>\<open>totalSteps\<close>. This holds for runs that return and for runs that
  a failed generation call ends early.
\<close>

theorem progress_completed_le_total:
  assumes "a \<in> set (dataStream (finalState (execute env tp depth)))"
    and "ann_completedSteps a = Some c" and "ann_totalSteps a = Some t"
  shows "c \<le> t"
proof (cases "generateObject researchPlanSchema (llmPlan env tp)")
  case None
  then have "dataStream (finalState (execute env tp depth)) = [planRunning]"
    by (simp add: execute_no_plan initialState_def)
  with assms(1) have "a = planRunning" by simp
  with assms(2) show ?thesis by (simp add: planRunning_def research_update_def)
next
  case (Some plan)
  let ?ids = "generateStepIds plan"
  let ?c0 = "int (length (filter (stepSucceeds env depth) (searchSteps ?ids)))"
  obtain ys where ys: "dataStream (finalState (execute env tp depth)) =
      planRunning # planCompleted ?ids plan (totalStepsOf ?ids) # ys"
    "list_all (laterAnnotation env depth plan) ys"
    using execute_dataStream [OF Some] by blast
  from assms(1) ys(1) have "a = planRunning \<or> a = planCompleted ?ids plan (totalStepsOf ?ids) \<or>
      a \<in> set ys" by auto
  then show ?thesis
  proof (elim disjE)
    assume "a = planRunning"
    with assms(2) show ?thesis by (simp add: planRunning_def research_update_def)
  next
    assume "a = planCompleted ?ids plan (totalStepsOf ?ids)"
    with assms(2) show ?thesis by (simp add: planCompleted_def research_update_def)
  next
    assume "a \<in> set ys"
    with ys(2) have "laterAnnotation env depth plan a" by (simp add: list_all_iff)
    then have "analysisAnnotation (analysisSteps ?ids) a \<or>
               tailAnnotation ?c0 (totalStepsOf ?ids) depth a"
      by (simp add: laterAnnotation_def)
    then show ?thesis
    proof
      assume "analysisAnnotation (analysisSteps ?ids) a"
      with assms(2) show ?thesis using analysisAnnotation_no_progress by fastforce
    next
      assume "tailAnnotation ?c0 (totalStepsOf ?ids) depth a"
      from tailAnnotation_progress [OF this assms(2) assms(3)]
      have "(c = ?c0 + 1 \<or> c = t - 1 \<or> c = t) \<and>
            t = totalStepsOf ?ids + (if depth = Advanced then 2 else 1)" .
      moreover have "?c0 \<le> totalStepsOf ?ids" by (rule succeeded_le_total)
      ultimately show ?thesis by (auto split: if_splits)
    qed
  qed
qed

theorem progress_completed_le_total_witness:
  "gapCompleted exampleGaps 1 3 Basic
     \<in> set (dataStream (finalState (execute timeoutEnv ''renewables'' Basic))) \<and>
   ann_completedSteps (gapCompleted exampleGaps 1 3 Basic) = Some 2 \<and>
   ann_totalSteps (gapCompleted exampleGaps 1 3 Basic) = Some 4 \<and> (2::int) \<le> 4"
proof -
  have m: "gapCompleted exampleGaps 1 3 Basic
     \<in> set (dataStream (finalState (execute timeoutEnv ''renewables'' Basic)))" by code_simp
  have c: "ann_completedSteps (gapCompleted exampleGaps 1 3 Basic) = Some 2" by code_simp
  have t: "ann_totalSteps (gapCompleted exampleGaps 1 3 Basic) = Some 4" by code_simp
  from progress_completed_le_total [OF m c t] m c t show ?thesis by simp
qed

subsection \<open>Bounds of the plan schema\<close>

text \<open>
  C5 (as the spec states it, refuted). The schema of the plan accepts a query of priority 1:
  the bounds it enforces are \<^verbatim>\<open>min(1)\<close> and \<^verbatim>\<open>max(5)\<close>, and the range 2 to 4 stands only in
  the prompt. The example plan, whose first query has priority 1, passes the schema and the
  run goes on to call the web adapter for that query.
\<close>

theorem schema_accepts_priority_one:
  "generateObject researchPlanSchema (llmPlan timeoutEnv ''renewables'') = Some examplePlan \<and>
   map priority (search_queries examplePlan) = [1, 3] \<and>
   map callStepId (adapterCalls (finalState (execute timeoutEnv ''renewables'' Basic))) =
     [''search-web-0'', ''search-academic-1'']"
  by code_simp

text \<open>
  C5 (amended). A plan that \<^verbatim>\<open>generateObject\<close> returns has every query priority between 1
  and 5 inclusive, so never 0; 1 and 5 are possible.
\<close>

theorem schema_priority_bounds:
  assumes "generateObject researchPlanSchema response = Some plan"
    and "q \<in> set (search_queries plan)"
  shows "1 \<le> priority q \<and> priority q \<le> 5 \<and> priority q \<noteq> 0"
proof -
  from assms(1) have "researchPlanSchema plan"
    by (auto simp: generateObject_def split: option.splits if_splits)
  then have "list_all querySchema (search_queries plan)" by (simp add: researchPlanSchema_def)
  with assms(2) have "querySchema q" by (simp add: list_all_iff)
  then show ?thesis by (simp add: querySchema_def)
qed

theorem schema_priority_bounds_witness:
  "generateObject researchPlanSchema (Some examplePlan) = Some examplePlan \<and>
   webQuery \<in> set (search_queries examplePlan) \<and>
   1 \<le> priority webQuery \<and> priority webQuery \<le> 5 \<and> priority webQuery \<noteq> 0"
proof -
  have g: "generateObject researchPlanSchema (Some examplePlan) = Some examplePlan" by code_simp
  have m: "webQuery \<in> set (search_queries examplePlan)" by (simp add: examplePlan_def)
  from schema_priority_bounds [OF g m] g m show ?thesis by simp
qed

subsection \<open>What increments the counter\<close>

text \<open>
  C10. Only a search step that reports no error adds to \<^verbatim>\<open>completedSteps\<close>: after any number
  of search steps the counter has grown by the number of successful ones, and the analysis
  loop, however far it gets, leaves it as it was, although \<^verbatim>\<open>totalSteps\<close> counts the analysis
  steps. So up to the gap-analysis annotation a counter that started at 0 is at most the
  number of search steps.
\<close>

theorem completed_counts_only_searches:
  "completedSteps (searchLoop env depth (take k steps) s) =
     completedSteps s + int (length (filter (stepSucceeds env depth) (take k steps))) \<and>
   completedSteps (finalState (analysisLoop env (take j asteps) s)) = completedSteps s \<and>
   totalStepsOf (generateStepIds plan) =
     int (length (searchSteps (generateStepIds plan))) + int (length (required_analyses plan)) \<and>
   (completedSteps s = 0 \<longrightarrow>
      completedSteps (finalState (analysisLoop env (take j asteps)
                        (searchLoop env depth (take k steps) s))) \<le> int (length steps))"
proof -
  have a: "completedSteps (searchLoop env depth (take k steps) s) =
     completedSteps s + int (length (filter (stepSucceeds env depth) (take k steps)))"
    by (rule searchLoop_completedSteps)
  have b: "\<And>s'. completedSteps (finalState (analysisLoop env (take j asteps) s')) = completedSteps s'"
    using analysisLoop_frame by blast
  have c: "totalStepsOf (generateStepIds plan) =
     int (length (searchSteps (generateStepIds plan))) + int (length (required_analyses plan))"
    by (simp add: totalStepsOf_def)
  have "length (filter (stepSucceeds env depth) (take k steps)) \<le> length (take k steps)"
    by (rule length_filter_le)
  also have "\<dots> \<le> length steps" by simp
  finally have "int (length (filter (stepSucceeds env depth) (take k steps))) \<le> int (length steps)"
    by (simp only: of_nat_le_iff)
  with a b have d: "completedSteps s = 0 \<longrightarrow>
      completedSteps (finalState (analysisLoop env (take j asteps)
                        (searchLoop env depth (take k steps) s))) \<le> int (length steps)"
    by simp
  from a b [of s] c d show ?thesis by (intro conjI)
qed

theorem completed_counts_only_searches_witness:
  "completedSteps initialState = 0 \<and>
   totalStepsOf (generateStepIds examplePlan) = 3 \<and>
   completedSteps (finalState (analysisLoop timeoutEnv (take 1 (analysisSteps (generateStepIds examplePlan)))
      (searchLoop timeoutEnv Basic (take 2 [webStep0, academicStep1]) initialState))) = 1 \<and>
   completedSteps (finalState (analysisLoop timeoutEnv (take 1 (analysisSteps (generateStepIds examplePlan)))
      (searchLoop timeoutEnv Basic (take 2 [webStep0, academicStep1]) initialState)))
     \<le> int (length [webStep0, academicStep1])"
proof -
  have z: "completedSteps initialState = 0" by (simp add: initialState_def)
  have t: "totalStepsOf (generateStepIds examplePlan) = 3" by code_simp
  have v: "completedSteps (finalState (analysisLoop timeoutEnv
      (take 1 (analysisSteps (generateStepIds examplePlan)))
      (searchLoop timeoutEnv Basic (take 2 [webStep0, academicStep1]) initialState))) = 1"
    by code_simp
  from completed_counts_only_searches
         [of timeoutEnv Basic 2 "[webStep0, academicStep1]" initialState 1
             "analysisSteps (generateStepIds examplePlan)" examplePlan] z
  have "completedSteps (finalState (analysisLoop timeoutEnv
      (take 1 (analysisSteps (generateStepIds examplePlan)))
      (searchLoop timeoutEnv Basic (take 2 [webStep0, academicStep1]) initialState)))
     \<le> int (length [webStep0, academicStep1])" by blast
  with z t v show ?thesis by (intro conjI)
qed

subsection \<open>Confidence of a limitation\<close>

text \<open>
  C9. The gap-analysis completed annotation of a run carries one finding per limitation of
  the gap analysis the run obtained, in order, with the limitation's description as
  insight, its potential solutions as evidence, and confidence \<^verbatim>\<open>(6 - l.severity) / 5\<close>, computed
  in double arithmetic (\<open>jsSub\<close>, \<open>jsDiv\<close>). Each severity is between 2 and 10 (the schema);
  for a severity that is a double the subtraction is exact, so the confidence is the exact
  quotient \<open>(6 - severity) / 5\<close> rounded once to the nearest double. Severity 10 gives the
  double that \<^verbatim>\<open>-0.8\<close> denotes, and every severity above 6 gives a negative confidence.
\<close>

theorem gap_confidence_formula:
  assumes "generateObject researchPlanSchema (llmPlan env tp) = Some plan"
    and "a \<in> set (dataStream (finalState (execute env tp depth)))"
    and "ann_id a = ''gap-analysis''"
    and "ann_status a = Completed"
  shows "\<exists>g. generateObject gapAnalysisSchema
               (llmGapAnalysis env
                  (map (stepResult env depth)
                     (filter (stepSucceeds env depth) (searchSteps (generateStepIds plan))))
                  (analysisSteps (generateStepIds plan))) = Some g \<and>
             ann_findings a =
               Some (map (\<lambda>l. \<lparr>insight = limitation_description l,
                                evidence = potential_solutions l,
                                confidence = jsDiv (jsSub 6 (severity l)) 5\<rparr>)
                       (limitations g)) \<and>
             list_all (\<lambda>l. 2 \<le> severity l \<and> severity l \<le> 10 \<and>
                           (isDouble (severity l) \<longrightarrow>
                              jsDiv (jsSub 6 (severity l)) 5 =
                                roundDouble ((6 - severity l) / 5)) \<and>
                           (severity l = 10 \<longrightarrow>
                              jsDiv (jsSub 6 (severity l)) 5 = roundDouble (- (8 / 10))) \<and>
                           (isDouble (severity l) \<and> 6 < severity l \<longrightarrow>
                              jsDiv (jsSub 6 (severity l)) 5 < 0))
               (limitations g)"
proof -
  from assms have ng: "ann_gaps a \<noteq> None" by (rule gap_completed_has_gaps)
  from execute_gap_analysis [OF assms(1) assms(2) ng]
  obtain g where g: "generateObject gapAnalysisSchema
               (llmGapAnalysis env
                  (map (stepResult env depth)
                     (filter (stepSucceeds env depth) (searchSteps (generateStepIds plan))))
                  (analysisSteps (generateStepIds plan))) = Some g"
    and a: "a = gapCompleted g
                 (int (length (filter (stepSucceeds env depth)
                                 (searchSteps (generateStepIds plan)))))
                 (totalStepsOf (generateStepIds plan)) depth"
    by blast
  have "map limitationFinding (limitations g) =
        map (\<lambda>l. \<lparr>insight = limitation_description l, evidence = potential_solutions l,
                    confidence = jsDiv (jsSub 6 (severity l)) 5\<rparr>) (limitations g)"
    by (rule map_cong) (simp_all add: limitationFinding_def)
  with a have f: "ann_findings a =
      Some (map (\<lambda>l. \<lparr>insight = limitation_description l, evidence = potential_solutions l,
                       confidence = jsDiv (jsSub 6 (severity l)) 5\<rparr>) (limitations g))"
    by (simp add: gapCompleted_def)
  from g have "gapAnalysisSchema g"
    by (simp add: generateObject_def split: option.splits if_splits)
  then have sch: "list_all limitationSchema (limitations g)"
    by (simp add: gapAnalysisSchema_def)
  have "list_all (\<lambda>l. 2 \<le> severity l \<and> severity l \<le> 10 \<and>
                           (isDouble (severity l) \<longrightarrow>
                              jsDiv (jsSub 6 (severity l)) 5 =
                                roundDouble ((6 - severity l) / 5)) \<and>
                           (severity l = 10 \<longrightarrow>
                              jsDiv (jsSub 6 (severity l)) 5 = roundDouble (- (8 / 10))) \<and>
                           (isDouble (severity l) \<and> 6 < severity l \<longrightarrow>
                              jsDiv (jsSub 6 (severity l)) 5 < 0))
               (limitations g)"
    unfolding list_all_iff
  proof
    fix l assume "l \<in> set (limitations g)"
    with sch have b: "2 \<le> severity l" "severity l \<le> 10"
      by (simp_all add: list_all_iff limitationSchema_def)
    have t: "severity l = 10 \<longrightarrow> jsDiv (jsSub 6 (severity l)) 5 = roundDouble (- (8 / 10))"
      using confidence_of_ten by simp
    have n: "isDouble (severity l) \<and> 6 < severity l \<longrightarrow> jsDiv (jsSub 6 (severity l)) 5 < 0"
      using confidence_negative [of "severity l"] b(2) by blast
    have o: "isDouble (severity l) \<longrightarrow>
        jsDiv (jsSub 6 (severity l)) 5 = roundDouble ((6 - severity l) / 5)"
      using confidence_once_rounded [of "severity l"] b by blast
    from b o t n show "2 \<le> severity l \<and> severity l \<le> 10 \<and>
                           (isDouble (severity l) \<longrightarrow>
                              jsDiv (jsSub 6 (severity l)) 5 =
                                roundDouble ((6 - severity l) / 5)) \<and>
                           (severity l = 10 \<longrightarrow>
                              jsDiv (jsSub 6 (severity l)) 5 = roundDouble (- (8 / 10))) \<and>
                           (isDouble (severity l) \<and> 6 < severity l \<longrightarrow>
                              jsDiv (jsSub 6 (severity l)) 5 < 0)"
      by (intro conjI)
  qed
  with g f show ?thesis by blast
qed

theorem gap_confidence_formula_witness:
  "generateObject researchPlanSchema (llmPlan timeoutEnv ''renewables'') = Some examplePlan \<and>
   gapCompleted exampleGaps 1 3 Basic
     \<in> set (dataStream (finalState (execute timeoutEnv ''renewables'' Basic))) \<and>
   ann_id (gapCompleted exampleGaps 1 3 Basic) = ''gap-analysis'' \<and>
   ann_status (gapCompleted exampleGaps 1 3 Basic) = Completed \<and>
   limitations exampleGaps = [exampleLimitation] \<and>
   severity exampleLimitation = 10 \<and> isDouble (severity exampleLimitation) \<and>
   6 < severity exampleLimitation \<and>
   ann_findings (gapCompleted exampleGaps 1 3 Basic) =
     Some [\<lparr>insight = ''few sources'', evidence = [],
            confidence = - (3602879701896397 / 4503599627370496)\<rparr>] \<and>
   jsDiv (jsSub 6 (severity exampleLimitation)) 5 =
     roundDouble ((6 - severity exampleLimitation) / 5) \<and>
   jsDiv (jsSub 6 (severity exampleLimitation)) 5 = roundDouble (- (8 / 10)) \<and>
   jsDiv (jsSub 6 (severity exampleLimitation)) 5 < 0"
proof -
  have p: "generateObject researchPlanSchema (llmPlan timeoutEnv ''renewables'') = Some examplePlan"
    by code_simp
  have m: "gapCompleted exampleGaps 1 3 Basic
     \<in> set (dataStream (finalState (execute timeoutEnv ''renewables'' Basic)))" by code_simp
  have i: "ann_id (gapCompleted exampleGaps 1 3 Basic) = ''gap-analysis''"
    "ann_status (gapCompleted exampleGaps 1 3 Basic) = Completed"
    by (simp_all add: gapCompleted_def research_update_def)
  have l: "limitations exampleGaps = [exampleLimitation]" by (simp add: exampleGaps_def)
  have s: "severity exampleLimitation = 10" by (simp add: exampleLimitation_def)
  have d: "isDouble (severity exampleLimitation)" unfolding s by code_simp
  have s6: "6 < severity exampleLimitation" unfolding s by simp
  have e: "generateObject gapAnalysisSchema
               (llmGapAnalysis timeoutEnv
                  (map (stepResult timeoutEnv Basic)
                     (filter (stepSucceeds timeoutEnv Basic)
                        (searchSteps (generateStepIds examplePlan))))
                  (analysisSteps (generateStepIds examplePlan))) = Some exampleGaps"
    by (simp add: timeoutEnv_def generateObject_def gapAnalysisSchema_def limitationSchema_def
        exampleGaps_def exampleLimitation_def)
  from gap_confidence_formula [OF p m i] e l
  have f: "ann_findings (gapCompleted exampleGaps 1 3 Basic) =
      Some [\<lparr>insight = limitation_description exampleLimitation,
             evidence = potential_solutions exampleLimitation,
             confidence = jsDiv (jsSub 6 (severity exampleLimitation)) 5\<rparr>]"
    and q: "(isDouble (severity exampleLimitation) \<longrightarrow>
               jsDiv (jsSub 6 (severity exampleLimitation)) 5 =
                 roundDouble ((6 - severity exampleLimitation) / 5)) \<and>
            (severity exampleLimitation = 10 \<longrightarrow>
               jsDiv (jsSub 6 (severity exampleLimitation)) 5 = roundDouble (- (8 / 10))) \<and>
            (isDouble (severity exampleLimitation) \<and> 6 < severity exampleLimitation \<longrightarrow>
               jsDiv (jsSub 6 (severity exampleLimitation)) 5 < 0)"
    by auto
  from q s have c: "jsDiv (jsSub 6 (severity exampleLimitation)) 5 = roundDouble (- (8 / 10))"
    by blast
  from q d s6 have n: "jsDiv (jsSub 6 (severity exampleLimitation)) 5 < 0" by blast
  from c have c': "jsDiv (jsSub 6 (severity exampleLimitation)) 5 =
      - (3602879701896397 / 4503599627370496)"
    by (simp only: minus_point_eight)
  have x: "limitation_description exampleLimitation = ''few sources''"
    "potential_solutions exampleLimitation = []" by (simp_all add: exampleLimitation_def)
  from f have f': "ann_findings (gapCompleted exampleGaps 1 3 Basic) =
     Some [\<lparr>insight = ''few sources'', evidence = [],
            confidence = - (3602879701896397 / 4503599627370496)\<rparr>]"
    by (simp only: c' x)
  from q d have o: "jsDiv (jsSub 6 (severity exampleLimitation)) 5 =
      roundDouble ((6 - severity exampleLimitation) / 5)" by blast
  from p m i l s d s6 f' o c n show ?thesis by (intro conjI)
qed

subsection \<open>Adapter errors in the deepening pass\<close>

text \<open>
  C3. In the deepening pass the result of a gap query is pushed without looking at the
  adapter's \<^verbatim>\<open>error\<close> field. In the example run the web adapter answers every call with
  \<^verbatim>\<open>error: 'timeout'\<close>: the initial web step leaves no entry, but each of the two gap queries
  with source \<^verbatim>\<open>all\<close> leaves a \<^verbatim>\<open>web\<close> entry in the evidence sequence.
\<close>

theorem gap_search_pushes_failed_result:
  "truthy (error (webSearchStep timeoutEnv
      \<lparr>web_query = ''a1'', web_provider = ''tavily'', web_maxResults = 5,
       web_searchDepth = Advanced, web_stepId = ''gap-search-web-0''\<rparr>)) \<and>
   map source (additionalQueriesOf (knowledge_gaps exampleGaps)) =
     [AllSources, Academic, X, AllSources, Academic, X] \<and>
   map result_type (searchResults (finalState (execute timeoutEnv ''renewables'' Advanced))) =
     [Academic, Web, Academic, X, Academic, X, Web, Academic, X, Academic, X]"
  by code_simp

subsection \<open>Sources and results of the gap queries\<close>

text \<open>
  C7. In a run that has written its gap-analysis annotation with knowledge gaps \<open>gaps\<close>, the
  additional queries of every gap get their sources by position: position 0 gets \<^verbatim>\<open>all\<close>,
  position \<open>idx > 0\<close> gets the source at position \<open>idx mod 3\<close> of web, academic, x. With depth
  \<^verbatim>\<open>advanced\<close> the adapter calls of the run are those of the initial steps followed, gap by
  gap and query by query, by a web, an academic and an x search for a query at position 0
  and by one search of the rotated source for any other query (\<open>rotationFanOut\<close>); the
  SearchResult entries appended after the initial ones name the same sources and queries.
  With two knowledge gaps of three additional queries each that makes exactly 10 additional
  entries; the adapters' answers play no part in the count, so this holds in particular when
  no query fails. With depth \<^verbatim>\<open>basic\<close> there is no gap search.
\<close>

theorem gap_query_rotation:
  assumes "generateObject researchPlanSchema (llmPlan env tp) = Some plan"
    and "a \<in> set (dataStream (finalState (execute env tp depth)))"
    and "ann_gaps a = Some gaps"
  shows "map source (additionalQueriesOf gaps) =
           concat (map (\<lambda>gap. map (\<lambda>idx. if idx = 0 then AllSources
                                           else [Web, Academic, X] ! (idx mod 3))
                                 [0..<length (additional_queries gap)]) gaps) \<and>
         map callTarget (adapterCalls (finalState (execute env tp depth))) =
           map (\<lambda>st. (step_type st, query (step_query st))) (searchSteps (generateStepIds plan)) @
           (if depth = Advanced then rotationFanOut gaps else []) \<and>
         map resultTarget (searchResults (finalState (execute env tp depth))) =
           map (\<lambda>st. (step_type st, query (step_query st)))
             (filter (\<lambda>st. \<not> truthy (adapterError env depth st))
                (searchSteps (generateStepIds plan))) @
           (if depth = Advanced then rotationFanOut gaps else []) \<and>
         (depth = Advanced \<and> length gaps = 2 \<and>
          list_all (\<lambda>gap. length (additional_queries gap) = 3) gaps \<longrightarrow>
            length (searchResults (finalState (execute env tp depth))) =
              length (filter (\<lambda>st. \<not> truthy (adapterError env depth st))
                        (searchSteps (generateStepIds plan))) + 10)"
proof -
  let ?F = "finalState (execute env tp depth)"
  let ?steps = "searchSteps (generateStepIds plan)"
  let ?ok = "filter (\<lambda>st. \<not> truthy (adapterError env depth st)) ?steps"
  from assms(3) have "ann_gaps a \<noteq> None" by simp
  from execute_gap_analysis [OF assms(1) assms(2) this]
  obtain g s' where g: "a = gapCompleted g
                 (int (length (filter (stepSucceeds env depth) ?steps)))
                 (totalStepsOf (generateStepIds plan)) depth"
    "afterSearch env depth plan s'"
    "adapterCalls ?F = adapterCalls (gapSearchLoop env depth
                (if depth = Advanced then additionalQueriesOf (knowledge_gaps g) else []) s')"
    "searchResults ?F = searchResults (gapSearchLoop env depth
                (if depth = Advanced then additionalQueriesOf (knowledge_gaps g) else []) s')"
    by blast
  from g(1) assms(3) have kg: "knowledge_gaps g = gaps"
    by (simp add: gapCompleted_def research_update_def)
  let ?Q = "if depth = Advanced then additionalQueriesOf gaps else []"
  have Q: "concat (map queryTargets ?Q) = (if depth = Advanced then rotationFanOut gaps else [])"
    by (simp add: additionalQueries_targets)
  from g(2) have s': "adapterCalls s' = concat (map (stepCalls depth) ?steps)"
    "searchResults s' = map (stepResult env depth) ?ok"
    by (simp_all add: afterSearch_def generated_filter_succeeds)
  have c: "map callTarget (adapterCalls ?F) =
           map (\<lambda>st. (step_type st, query (step_query st))) ?steps @
           (if depth = Advanced then rotationFanOut gaps else [])"
    using g(3) kg Q s'(1) stepCalls_targets [OF generated_types, of depth plan]
    by (simp only: gapSearchLoop_callTargets)
  have r: "map resultTarget (searchResults ?F) =
           map (\<lambda>st. (step_type st, query (step_query st))) ?ok @
           (if depth = Advanced then rotationFanOut gaps else [])"
    using g(4) kg Q s'(2) stepResult_targets [of env depth ?ok]
    by (simp only: gapSearchLoop_resultTargets)
  have n: "depth = Advanced \<and> length gaps = 2 \<and>
          list_all (\<lambda>gap. length (additional_queries gap) = 3) gaps \<longrightarrow>
            length (searchResults ?F) = length ?ok + 10"
  proof
    assume h: "depth = Advanced \<and> length gaps = 2 \<and>
          list_all (\<lambda>gap. length (additional_queries gap) = 3) gaps"
    then have "length (rotationFanOut gaps) = 10" by (simp add: rotationFanOut_two_by_three)
    moreover have "length (map resultTarget (searchResults ?F)) =
        length (map (\<lambda>st. (step_type st, query (step_query st))) ?ok @ rotationFanOut gaps)"
      using r h by simp
    ultimately show "length (searchResults ?F) = length ?ok + 10" by simp
  qed
  from additionalQueries_sources [of gaps] c r n show ?thesis by (intro conjI)
qed

theorem gap_query_rotation_witness:
  "generateObject researchPlanSchema (llmPlan timeoutEnv ''renewables'') = Some examplePlan \<and>
   gapCompleted exampleGaps 1 3 Advanced
     \<in> set (dataStream (finalState (execute timeoutEnv ''renewables'' Advanced))) \<and>
   ann_gaps (gapCompleted exampleGaps 1 3 Advanced) = Some (knowledge_gaps exampleGaps) \<and>
   length (knowledge_gaps exampleGaps) = 2 \<and>
   list_all (\<lambda>gap. length (additional_queries gap) = 3) (knowledge_gaps exampleGaps) \<and>
   rotationFanOut (knowledge_gaps exampleGaps) =
     [(Web, ''a1''), (Academic, ''a1''), (X, ''a1''), (Academic, ''a2''), (X, ''a3''),
      (Web, ''b1''), (Academic, ''b1''), (X, ''b1''), (Academic, ''b2''), (X, ''b3'')] \<and>
   map callTarget (adapterCalls (finalState (execute timeoutEnv ''renewables'' Advanced))) =
     [(Web, ''solar''), (Academic, ''wind'')] @ rotationFanOut (knowledge_gaps exampleGaps) \<and>
   length (searchResults (finalState (execute timeoutEnv ''renewables'' Advanced))) = 1 + 10"
proof -
  have p: "generateObject researchPlanSchema (llmPlan timeoutEnv ''renewables'') = Some examplePlan"
    by code_simp
  have m: "gapCompleted exampleGaps 1 3 Advanced
     \<in> set (dataStream (finalState (execute timeoutEnv ''renewables'' Advanced)))" by code_simp
  have k: "ann_gaps (gapCompleted exampleGaps 1 3 Advanced) = Some (knowledge_gaps exampleGaps)"
    by (simp add: gapCompleted_def research_update_def)
  have l: "length (knowledge_gaps exampleGaps) = 2 \<and>
   list_all (\<lambda>gap. length (additional_queries gap) = 3) (knowledge_gaps exampleGaps)"
    by (simp add: exampleGaps_def)
  have f: "rotationFanOut (knowledge_gaps exampleGaps) =
     [(Web, ''a1''), (Academic, ''a1''), (X, ''a1''), (Academic, ''a2''), (X, ''a3''),
      (Web, ''b1''), (Academic, ''b1''), (X, ''b1''), (Academic, ''b2''), (X, ''b3'')]"
    by code_simp
  have i: "map (\<lambda>st. (step_type st, query (step_query st))) (searchSteps (generateStepIds examplePlan))
      = [(Web, ''solar''), (Academic, ''wind'')]" by code_simp
  have o: "length (filter (\<lambda>st. \<not> truthy (adapterError timeoutEnv Advanced st))
                        (searchSteps (generateStepIds examplePlan))) = 1" by code_simp
  note t = gap_query_rotation [OF p m k]
  from t i have c: "map callTarget (adapterCalls (finalState (execute timeoutEnv ''renewables'' Advanced))) =
     [(Web, ''solar''), (Academic, ''wind'')] @ rotationFanOut (knowledge_gaps exampleGaps)"
    by simp
  from t l o have n: "length (searchResults (finalState (execute timeoutEnv ''renewables'' Advanced)))
      = 1 + 10" by simp
  from p m k l f c n show ?thesis by (intro conjI) simp_all
qed

subsection \<open>Failed steps in the progress reports\<close>

text \<open>
  C8 (as the spec states it, refuted). In the example run the adapter of the web step
  reports \<^verbatim>\<open>error: 'timeout'\<close>, and the final progress annotation still reports
  \<^verbatim>\<open>completedSteps\<close> 4 of \<^verbatim>\<open>totalSteps\<close> 4 (two search steps, one analysis, the gap analysis).
\<close>

theorem final_progress_counts_failed_step:
  "webStep0 \<in> set (searchSteps (generateStepIds examplePlan)) \<and>
   truthy (adapterError timeoutEnv Basic webStep0) \<and>
   ann_id (last (dataStream (finalState (execute timeoutEnv ''renewables'' Basic)))) =
     ''research-progress'' \<and>
   ann_completedSteps (last (dataStream (finalState (execute timeoutEnv ''renewables'' Basic)))) =
     Some 4 \<and>
   ann_totalSteps (last (dataStream (finalState (execute timeoutEnv ''renewables'' Basic)))) =
     Some 4"
  by code_simp

text \<open>
  C8 (amended). In every run with a generated plan, the gap-analysis completed annotation
  reports as \<^verbatim>\<open>completedSteps\<close> the number of initial search steps whose adapter reported no
  error, plus one, against a \<^verbatim>\<open>totalSteps\<close> of all search steps plus the analyses plus 1
  (\<^verbatim>\<open>basic\<close>) or 2 (\<^verbatim>\<open>advanced\<close>): a failed initial search step is not counted there, and with
  one the count stays below the number of search steps plus one. The final-synthesis
  completed annotation and the final progress annotation report \<open>total - 1\<close> of \<open>total\<close> and
  \<open>total\<close> of \<open>total\<close> in every run, whether or not a step failed.
\<close>

theorem failed_step_in_progress_reports:
  assumes "generateObject researchPlanSchema (llmPlan env tp) = Some plan"
    and "a \<in> set (dataStream (finalState (execute env tp depth)))"
  shows "(ann_id a = ''gap-analysis'' \<and> ann_status a = Completed \<longrightarrow>
            ann_completedSteps a =
              Some (int (length (filter (\<lambda>st. \<not> truthy (adapterError env depth st))
                                   (searchSteps (generateStepIds plan)))) + 1) \<and>
            ann_totalSteps a =
              Some (int (length (searchSteps (generateStepIds plan))) +
                    int (length (required_analyses plan)) +
                    (if depth = Advanced then 2 else 1)) \<and>
            ((\<exists>st \<in> set (searchSteps (generateStepIds plan)).
                 truthy (adapterError env depth st)) \<longrightarrow>
               int (length (filter (\<lambda>st. \<not> truthy (adapterError env depth st))
                              (searchSteps (generateStepIds plan)))) + 1
                 < int (length (searchSteps (generateStepIds plan))) + 1)) \<and>
         (ann_id a = ''final-synthesis'' \<and> ann_status a = Completed \<longrightarrow>
            ann_completedSteps a =
              Some (int (length (searchSteps (generateStepIds plan))) +
                    int (length (required_analyses plan)) +
                    (if depth = Advanced then 2 else 1) - 1) \<and>
            ann_totalSteps a =
              Some (int (length (searchSteps (generateStepIds plan))) +
                    int (length (required_analyses plan)) +
                    (if depth = Advanced then 2 else 1))) \<and>
         (ann_id a = ''research-progress'' \<longrightarrow>
            ann_completedSteps a =
              Some (int (length (searchSteps (generateStepIds plan))) +
                    int (length (required_analyses plan)) +
                    (if depth = Advanced then 2 else 1)) \<and>
            ann_totalSteps a =
              Some (int (length (searchSteps (generateStepIds plan))) +
                    int (length (required_analyses plan)) +
                    (if depth = Advanced then 2 else 1)))"
proof -
  let ?ids = "generateStepIds plan"
  let ?steps = "searchSteps ?ids"
  let ?T = "totalStepsOf ?ids"
  let ?c0 = "int (length (filter (stepSucceeds env depth) ?steps))"
  let ?ok = "int (length (filter (\<lambda>st. \<not> truthy (adapterError env depth st)) ?steps))"
  have T: "?T = int (length ?steps) + int (length (required_analyses plan))"
    by (simp add: totalStepsOf_def)
  have c0: "?c0 = ?ok" by (simp only: generated_filter_succeeds)
  have fewer: "(\<exists>st \<in> set ?steps. truthy (adapterError env depth st)) \<longrightarrow>
      ?ok + 1 < int (length ?steps) + 1"
  proof
    assume "\<exists>st \<in> set ?steps. truthy (adapterError env depth st)"
    then obtain st where st: "st \<in> set ?steps" "truthy (adapterError env depth st)" by blast
    have "length (filter (\<lambda>st. \<not> truthy (adapterError env depth st)) ?steps) < length ?steps"
      using st by (intro length_filter_less [of st]) simp_all
    then show "?ok + 1 < int (length ?steps) + 1" by simp
  qed
  obtain ys where ys: "dataStream (finalState (execute env tp depth)) =
      planRunning # planCompleted ?ids plan ?T # ys"
    "list_all (laterAnnotation env depth plan) ys"
    using execute_dataStream [OF assms(1)] by blast
  from assms(2) ys(1) have "a = planRunning \<or> a = planCompleted ?ids plan ?T \<or> a \<in> set ys"
    by auto
  then show ?thesis
  proof (elim disjE)
    assume "a = planRunning"
    then show ?thesis by (simp add: planRunning_def research_update_def)
  next
    assume "a = planCompleted ?ids plan ?T"
    then show ?thesis by (simp add: planCompleted_def research_update_def generateStepIds_def)
  next
    assume "a \<in> set ys"
    with ys(2) have "laterAnnotation env depth plan a" by (simp add: list_all_iff)
    then have "analysisAnnotation (analysisSteps ?ids) a \<or> tailAnnotation ?c0 ?T depth a"
      by (simp add: laterAnnotation_def)
    then show ?thesis
    proof
      assume "analysisAnnotation (analysisSteps ?ids) a"
      then obtain rest where "ann_id a = ''analysis-'' @ rest"
        using analysisAnnotation_id by blast
      then show ?thesis by simp
    next
      assume "tailAnnotation ?c0 ?T depth a"
      then consider "a = gapRunning" | g where "a = gapCompleted g ?c0 ?T depth"
        | "a = synthesisRunning" | f where "a = synthesisCompleted f ?T depth"
        | "a = finalProgress ?T depth"
        unfolding tailAnnotation_def by blast
      then show ?thesis
      proof cases
        case 1
        then show ?thesis by (simp add: gapRunning_def research_update_def)
      next
        case 2
        then have f: "ann_id a = ''gap-analysis''"
          "ann_completedSteps a = Some (?ok + 1)"
          "ann_totalSteps a = Some (int (length ?steps) + int (length (required_analyses plan)) +
              (if depth = Advanced then 2 else 1))"
          by (simp_all add: gapCompleted_def research_update_def T c0)
        with fewer show ?thesis by simp
      next
        case 3
        then show ?thesis by (simp add: synthesisRunning_def research_update_def)
      next
        case 4
        then have f: "ann_id a = ''final-synthesis''"
          "ann_completedSteps a = Some (int (length ?steps) + int (length (required_analyses plan)) +
              (if depth = Advanced then 2 else 1) - 1)"
          "ann_totalSteps a = Some (int (length ?steps) + int (length (required_analyses plan)) +
              (if depth = Advanced then 2 else 1))"
          by (simp_all add: synthesisCompleted_def research_update_def T)
        then show ?thesis by simp
      next
        case 5
        then have f: "ann_id a = ''research-progress''"
          "ann_completedSteps a = Some (int (length ?steps) + int (length (required_analyses plan)) +
              (if depth = Advanced then 2 else 1))"
          "ann_totalSteps a = Some (int (length ?steps) + int (length (required_analyses plan)) +
              (if depth = Advanced then 2 else 1))"
          by (simp_all add: finalProgress_def research_update_def T)
        then show ?thesis by simp
      qed
    qed
  qed
qed

theorem failed_step_in_progress_reports_witness:
  "generateObject researchPlanSchema (llmPlan timeoutEnv ''renewables'') = Some examplePlan \<and>
   gapCompleted exampleGaps 1 3 Basic
     \<in> set (dataStream (finalState (execute timeoutEnv ''renewables'' Basic))) \<and>
   ann_id (gapCompleted exampleGaps 1 3 Basic) = ''gap-analysis'' \<and>
   ann_status (gapCompleted exampleGaps 1 3 Basic) = Completed \<and>
   webStep0 \<in> set (searchSteps (generateStepIds examplePlan)) \<and>
   truthy (adapterError timeoutEnv Basic webStep0) \<and>
   length (searchSteps (generateStepIds examplePlan)) = 2 \<and>
   length (filter (\<lambda>st. \<not> truthy (adapterError timeoutEnv Basic st))
             (searchSteps (generateStepIds examplePlan))) = 1 \<and>
   ann_completedSteps (gapCompleted exampleGaps 1 3 Basic) = Some (1 + 1) \<and>
   ann_totalSteps (gapCompleted exampleGaps 1 3 Basic) = Some (2 + 1 + 1)"
proof -
  have p: "generateObject researchPlanSchema (llmPlan timeoutEnv ''renewables'') = Some examplePlan"
    by code_simp
  have a: "gapCompleted exampleGaps 1 3 Basic
     \<in> set (dataStream (finalState (execute timeoutEnv ''renewables'' Basic)))" by code_simp
  have i: "ann_id (gapCompleted exampleGaps 1 3 Basic) = ''gap-analysis''"
    "ann_status (gapCompleted exampleGaps 1 3 Basic) = Completed"
    by (simp_all add: gapCompleted_def research_update_def)
  have m: "webStep0 \<in> set (searchSteps (generateStepIds examplePlan))" by code_simp
  have e: "truthy (adapterError timeoutEnv Basic webStep0)" by code_simp
  have n: "length (searchSteps (generateStepIds examplePlan)) = 2" by code_simp
  have o: "length (filter (\<lambda>st. \<not> truthy (adapterError timeoutEnv Basic st))
             (searchSteps (generateStepIds examplePlan))) = 1" by code_simp
  have r: "length (required_analyses examplePlan) = 1" by (simp add: examplePlan_def)
  from failed_step_in_progress_reports [OF p a] i
  have "ann_completedSteps (gapCompleted exampleGaps 1 3 Basic) =
      Some (int (length (filter (\<lambda>st. \<not> truthy (adapterError timeoutEnv Basic st))
                           (searchSteps (generateStepIds examplePlan)))) + 1)"
    "ann_totalSteps (gapCompleted exampleGaps 1 3 Basic) =
      Some (int (length (searchSteps (generateStepIds examplePlan))) +
            int (length (required_analyses examplePlan)) + (if Basic = Advanced then 2 else 1))"
    by blast+
  then have v: "ann_completedSteps (gapCompleted exampleGaps 1 3 Basic) = Some (1 + 1)"
    "ann_totalSteps (gapCompleted exampleGaps 1 3 Basic) = Some (2 + 1 + 1)"
    by (simp_all only: n o r) simp_all
  from p a i m e n o v show ?thesis by (intro conjI)
qed

subsection \<open>Identifiers of the gap steps\<close>

text \<open>
  C6 (as the spec states it, refuted). In the example run the gap queries with a single
  source get the identifiers \<^verbatim>\<open>gap-search-5\<close>, \<^verbatim>\<open>gap-search-6\<close>, \<^verbatim>\<open>gap-search-10\<close> and
  \<^verbatim>\<open>gap-search-11\<close>, which name no source type, and the web step of the first \<^verbatim>\<open>all\<close> query
  gets \<^verbatim>\<open>gap-search-web-0\<close>, whose index 0 the initial batch has used already.
\<close>

theorem gap_ids_of_example_run:
  "map callStepId (adapterCalls (finalState (execute timeoutEnv ''renewables'' Advanced))) =
     [''search-web-0'', ''search-academic-1'',
      ''gap-search-web-0'', ''gap-search-academic-3'', ''gap-search-x-4'',
      ''gap-search-5'', ''gap-search-6'',
      ''gap-search-web-5'', ''gap-search-academic-8'', ''gap-search-x-9'',
      ''gap-search-10'', ''gap-search-11'']"
  by code_simp

text \<open>
  C6 (amended). The counter \<^verbatim>\<open>searchIndex\<close> continues from the initial pass: in a run that has
  written its gap-analysis annotation, the identifiers passed to the adapters are those of
  the initial search steps followed by those of the gap queries, and the first gap query
  starts at the number of initial search steps. With \<open>i\<close> the counter when a gap query
  starts, a query with a single source passes \<^verbatim>\<open>gap-search-<i>\<close> (no source type) and the
  next query starts at \<open>i + 1\<close>; a query with source \<^verbatim>\<open>all\<close> passes an identifier
  \<^verbatim>\<open>gap-search-web-<j>\<close>, then \<^verbatim>\<open>gap-search-academic-<i+1>\<close> and \<^verbatim>\<open>gap-search-x-<i+2>\<close>, and the
  next query starts at \<open>i + 3\<close> (\<open>gapBatchIds\<close>; the index \<open>j\<close> of the web step is left open).
  In every run, no two steps share an identifier: those passed to the adapters and those of
  the analysis steps are pairwise different.
\<close>

theorem gap_step_identifiers:
  "distinct
     (map callStepId (adapterCalls (finalState (execute env tp depth))) @
      (case generateObject researchPlanSchema (llmPlan env tp) of
         None \<Rightarrow> []
       | Some plan \<Rightarrow> map analysis_id (analysisSteps (generateStepIds plan)))) \<and>
   (generateObject researchPlanSchema (llmPlan env tp) = Some plan \<and>
    a \<in> set (dataStream (finalState (execute env tp depth))) \<and> ann_gaps a = Some gaps \<longrightarrow>
      (\<exists>ids. map callStepId (adapterCalls (finalState (execute env tp depth))) =
               map step_id (searchSteps (generateStepIds plan)) @ ids \<and>
             gapBatchIds (int (length (searchSteps (generateStepIds plan))))
               (if depth = Advanced then additionalQueriesOf gaps else []) ids))"
proof -
  let ?F = "finalState (execute env tp depth)"
  have d: "distinct
     (map callStepId (adapterCalls ?F) @
      (case generateObject researchPlanSchema (llmPlan env tp) of
         None \<Rightarrow> []
       | Some plan \<Rightarrow> map analysis_id (analysisSteps (generateStepIds plan))))"
  proof (cases "generateObject researchPlanSchema (llmPlan env tp)")
    case None
    then show ?thesis by (simp add: execute_no_plan initialState_def)
  next
    case (Some plan)
    obtain qs where "map callStepId (adapterCalls ?F) =
        map step_id (searchSteps (generateStepIds plan)) @
        gapLoopIds (int (length (searchSteps (generateStepIds plan)))) qs"
      using execute_stepIds [OF Some] by blast
    with Some run_ids_distinct [of plan "int (length (searchSteps (generateStepIds plan)))" qs]
    show ?thesis by simp
  qed
  have b: "generateObject researchPlanSchema (llmPlan env tp) = Some plan \<and>
    a \<in> set (dataStream ?F) \<and> ann_gaps a = Some gaps \<longrightarrow>
      (\<exists>ids. map callStepId (adapterCalls ?F) =
               map step_id (searchSteps (generateStepIds plan)) @ ids \<and>
             gapBatchIds (int (length (searchSteps (generateStepIds plan))))
               (if depth = Advanced then additionalQueriesOf gaps else []) ids)"
  proof
    assume h: "generateObject researchPlanSchema (llmPlan env tp) = Some plan \<and>
      a \<in> set (dataStream ?F) \<and> ann_gaps a = Some gaps"
    let ?steps = "searchSteps (generateStepIds plan)"
    let ?Q = "if depth = Advanced then additionalQueriesOf gaps else []"
    from h have ng: "ann_gaps a \<noteq> None" by simp
    from h execute_gap_analysis [of env tp plan a depth, OF _ _ ng]
    obtain g s' where g: "a = gapCompleted g
                 (int (length (filter (stepSucceeds env depth) ?steps)))
                 (totalStepsOf (generateStepIds plan)) depth"
      "afterSearch env depth plan s'"
      "adapterCalls ?F = adapterCalls (gapSearchLoop env depth
                (if depth = Advanced then additionalQueriesOf (knowledge_gaps g) else []) s')"
      by blast
    from g(1) h have kg: "knowledge_gaps g = gaps"
      by (simp add: gapCompleted_def research_update_def)
    from g(2) have s': "adapterCalls s' = concat (map (stepCalls depth) ?steps)"
      "searchIndex s' = int (length ?steps)" by (simp_all add: afterSearch_def)
    have "map callStepId (adapterCalls ?F) =
        map step_id ?steps @ gapLoopIds (int (length ?steps)) ?Q"
      using g(3) kg s' stepCalls_ids [OF generated_types, of depth plan]
      by (simp only: gapSearchLoop_stepIds)
    moreover have "gapBatchIds (int (length ?steps)) ?Q (gapLoopIds (int (length ?steps)) ?Q)"
      by (rule gapLoopIds_batch)
    ultimately show "\<exists>ids. map callStepId (adapterCalls ?F) = map step_id ?steps @ ids \<and>
             gapBatchIds (int (length ?steps)) ?Q ids" by blast
  qed
  from d b show ?thesis by (intro conjI)
qed

theorem gap_step_identifiers_witness:
  "generateObject researchPlanSchema (llmPlan timeoutEnv ''renewables'') = Some examplePlan \<and>
   gapCompleted exampleGaps 1 3 Advanced
     \<in> set (dataStream (finalState (execute timeoutEnv ''renewables'' Advanced))) \<and>
   ann_gaps (gapCompleted exampleGaps 1 3 Advanced) = Some (knowledge_gaps exampleGaps) \<and>
   map step_id (searchSteps (generateStepIds examplePlan)) =
     [''search-web-0'', ''search-academic-1''] \<and>
   (\<exists>ids. map callStepId (adapterCalls (finalState (execute timeoutEnv ''renewables'' Advanced))) =
            [''search-web-0'', ''search-academic-1''] @ ids \<and>
          gapBatchIds 2 (additionalQueriesOf (knowledge_gaps exampleGaps)) ids)"
proof -
  have p: "generateObject researchPlanSchema (llmPlan timeoutEnv ''renewables'') = Some examplePlan"
    by code_simp
  have m: "gapCompleted exampleGaps 1 3 Advanced
     \<in> set (dataStream (finalState (execute timeoutEnv ''renewables'' Advanced)))" by code_simp
  have k: "ann_gaps (gapCompleted exampleGaps 1 3 Advanced) = Some (knowledge_gaps exampleGaps)"
    by (simp add: gapCompleted_def research_update_def)
  have i: "map step_id (searchSteps (generateStepIds examplePlan)) =
     [''search-web-0'', ''search-academic-1'']" by code_simp
  have n: "int (length (searchSteps (generateStepIds examplePlan))) = 2" by code_simp
  from gap_step_identifiers
         [of timeoutEnv "''renewables''" Advanced examplePlan
             "gapCompleted exampleGaps 1 3 Advanced" "knowledge_gaps exampleGaps"] p m k
  have "\<exists>ids. map callStepId (adapterCalls (finalState (execute timeoutEnv ''renewables'' Advanced))) =
            map step_id (searchSteps (generateStepIds examplePlan)) @ ids \<and>
          gapBatchIds (int (length (searchSteps (generateStepIds examplePlan))))
            (if Advanced = Advanced then additionalQueriesOf (knowledge_gaps exampleGaps) else [])
            ids" by blast
  then have "\<exists>ids. map callStepId (adapterCalls (finalState (execute timeoutEnv ''renewables'' Advanced))) =
            [''search-web-0'', ''search-academic-1''] @ ids \<and>
          gapBatchIds 2 (additionalQueriesOf (knowledge_gaps exampleGaps)) ids"
    by (simp only: i n if_True simp_thms)
  with p m k i show ?thesis by (intro conjI)
qed

end
